theory Spec2Isabelle
  imports Main
begin

section \<open>JavaScript string and array primitives used by pluginUtils.js\<close>

text \<open>
  Strings are character lists. Every primitive below compares characters with ASCII
  delimiters only, and indices are used only on the string they were computed from.
  Indices are integers because the source feeds the \<open>-1\<close> of a failed search back into
  \<open>slice\<close>, where a negative index counts from the end.
\<close>

text \<open>\<open>str[i]\<close>: the character at index \<open>i\<close>, \<open>undefined\<close> outside the string.\<close>

definition charAt :: "string \<Rightarrow> int \<Rightarrow> char option" where
  "charAt str i = (if 0 \<le> i \<and> i < int (length str) then Some (str ! nat i) else None)"

text \<open>\<open>Array.prototype.join\<close> on an array of strings.\<close>

fun js_join :: "string \<Rightarrow> string list \<Rightarrow> string" where
  "js_join sep [] = []"
| "js_join sep [x] = x"
| "js_join sep (x # y # ys) = x @ sep @ js_join sep (y # ys)"

text \<open>\<open>join\<close> renders \<open>null\<close> and \<open>undefined\<close> elements as the empty string.\<close>

definition js_str :: "string option \<Rightarrow> string" where
  "js_str v = (case v of None \<Rightarrow> [] | Some s \<Rightarrow> s)"

text \<open>\<open>startsWith\<close> and \<open>endsWith\<close>.\<close>

definition startsWith :: "string \<Rightarrow> string \<Rightarrow> bool" where
  "startsWith str p = (take (length p) str = p)"

definition endsWith :: "string \<Rightarrow> string \<Rightarrow> bool" where
  "endsWith str p = (length p \<le> length str \<and> drop (length str - length p) str = p)"

text \<open>
  \<open>str.indexOf(pat, from)\<close>: the first index at or after \<open>from\<close> where \<open>pat\<close> occurs,
  \<open>-1\<close> when there is none. The start is clamped into the string.
\<close>

fun indexFrom :: "string \<Rightarrow> string \<Rightarrow> nat \<Rightarrow> int" where
  "indexFrom pat [] k = (if pat = [] then int k else - 1)"
| "indexFrom pat (c # cs) k =
     (if take (length pat) (c # cs) = pat then int k else indexFrom pat cs (Suc k))"

definition indexOf :: "string \<Rightarrow> string \<Rightarrow> int \<Rightarrow> int" where
  "indexOf str pat from =
     (let start = nat (min (max from 0) (int (length str)))
      in indexFrom pat (drop start str) start)"

text \<open>\<open>str.lastIndexOf(pat)\<close>: the last index where \<open>pat\<close> occurs, \<open>-1\<close> when there is none.\<close>

fun lastIndexFrom :: "string \<Rightarrow> string \<Rightarrow> nat \<Rightarrow> int \<Rightarrow> int" where
  "lastIndexFrom pat [] k best = (if pat = [] then int k else best)"
| "lastIndexFrom pat (c # cs) k best =
     lastIndexFrom pat cs (Suc k) (if take (length pat) (c # cs) = pat then int k else best)"

definition lastIndexOf :: "string \<Rightarrow> string \<Rightarrow> int" where
  "lastIndexOf str pat = lastIndexFrom pat str 0 (- 1)"

text \<open>
  \<open>str.slice(start, end)\<close>: a negative index counts from the end, both are clamped into
  the string, and the result is empty when the start is not before the end.
\<close>

definition sliceIndex :: "nat \<Rightarrow> int \<Rightarrow> nat" where
  "sliceIndex len i = (if i < 0 then nat (max (int len + i) 0) else min (nat i) len)"

definition js_slice :: "string \<Rightarrow> int \<Rightarrow> int \<Rightarrow> string" where
  "js_slice str start end =
     (let from = sliceIndex (length str) start; to = sliceIndex (length str) end
      in take (to - from) (drop from str))"

text \<open>\<open>str.slice(start)\<close>: up to the end of the string.\<close>

definition js_slice_from :: "string \<Rightarrow> int \<Rightarrow> string" where
  "js_slice_from str start = drop (sliceIndex (length str) start) str"

text \<open>\<open>str.split(sep)\<close> for a one-character separator (the source splits on \<open>':'\<close>).\<close>

fun splitAcc :: "char \<Rightarrow> string \<Rightarrow> string \<Rightarrow> string list" where
  "splitAcc sep [] cur = [cur]"
| "splitAcc sep (c # cs) cur =
     (if c = sep then cur # splitAcc sep cs [] else splitAcc sep cs (cur @ [c]))"

definition js_split :: "string \<Rightarrow> char \<Rightarrow> string list" where
  "js_split str sep = splitAcc sep str []"

text \<open>
  \<open>str.replace(pat, rep)\<close> with a string pattern: only the first occurrence is replaced.
  The source's replacement is the empty string, so the \<open>$\<close> patterns of a replacement
  string do not arise.
\<close>

definition js_replace :: "string \<Rightarrow> string \<Rightarrow> string \<Rightarrow> string" where
  "js_replace str pat rep =
     (let i = indexOf str pat 0
      in if i < 0 then str else take (nat i) str @ rep @ drop (nat i + length pat) str)"

section \<open>splitByNotEscapedCommas\<close>

text \<open>
  The loop of \<open>splitByNotEscapedCommas\<close> with its three variables: the index \<open>i\<close>, the
  array \<open>chunks\<close> and the string \<open>currentChunk\<close>. At \<open>i = 0\<close> the source reads \<open>str[-1]\<close>,
  which is \<open>undefined\<close> and so differs from the backslash.
\<close>

function splitLoop :: "string \<Rightarrow> nat \<Rightarrow> string list \<Rightarrow> string \<Rightarrow> string list" where
  "splitLoop str i chunks currentChunk =
     (if i < length str then
        (if charAt str (int i) = Some CHR '','' \<and> charAt str (int i - 1) \<noteq> Some CHR 0x5C
         then splitLoop str (i + 1) (chunks @ [currentChunk]) []
         else splitLoop str (i + 1) chunks (currentChunk @ [str ! i]))
      else chunks @ [currentChunk])"
  by pat_completeness auto
termination
  by (relation "measure (\<lambda>(str, i, chunks, currentChunk). length str - i)") auto

declare splitLoop.simps [simp del]

definition splitByNotEscapedCommas :: "string \<Rightarrow> string list" where
  "splitByNotEscapedCommas str = splitLoop str 0 [] []"

text \<open>
  The same loop as a recursion over the rest of the string, with the previous character in
  place of the index; the proofs relate it to \<open>splitLoop\<close>.
\<close>

fun splitRest :: "char option \<Rightarrow> string \<Rightarrow> string \<Rightarrow> string list" where
  "splitRest prev [] cur = [cur]"
| "splitRest prev (c # cs) cur =
     (if c = CHR '','' \<and> prev \<noteq> Some CHR 0x5C then cur # splitRest (Some c) cs []
      else splitRest (Some c) cs (cur @ [c]))"

text \<open>
  For stating where the cuts fall: in a chunk with escaped commas only, every comma stands
  right after a backslash of the same chunk (so the chunk does not begin with a comma).
\<close>

definition escapedCommasOnly :: "string \<Rightarrow> bool" where
  "escapedCommasOnly chunk =
     (\<forall>i<length chunk. chunk ! i = CHR '','' \<longrightarrow> 0 < i \<and> chunk ! (i - 1) = CHR 0x5C)"

section \<open>applyPseudoToMarker\<close>

text \<open>
  \<open>applyPseudoToMarker(selector, marker, state, join)\<close>. The array \<open>states\<close> starts as
  \<open>[state]\<close> and the states already on the marker are concatenated after it. The end index
  of the second \<open>slice\<close> is \<open>existingMarker.length\<close>, as in the source.
\<close>

definition applyPseudoToMarker ::
  "string \<Rightarrow> string \<Rightarrow> string \<Rightarrow> (string \<Rightarrow> string \<Rightarrow> 'a) \<Rightarrow> 'a" where
  "applyPseudoToMarker selector marker state join =
     (let states = [state];
          markerIdx = indexOf selector (marker @ '':'') 0
      in if markerIdx \<noteq> - 1 then
           (let existingMarker = js_slice selector markerIdx (indexOf selector '' '' markerIdx);
                states = states @
                  js_split (js_slice selector (markerIdx + int (length marker) + 1)
                              (int (length existingMarker))) CHR '':'';
                selector = js_replace selector existingMarker []
            in join (js_join '':'' (marker # states)) selector)
         else join (js_join '':'' (marker # states)) selector)"

text \<open>
  The \<open>join\<close> callback that the \<open>group-*\<close> variants pass:
  \<open>(marker, selector) => `${marker} ${selector}`\<close>.
\<close>

definition groupJoin :: "string \<Rightarrow> string \<Rightarrow> string" where
  "groupJoin marker selector = marker @ '' '' @ selector"

section \<open>Value resolution: asValue, asColor, coerceValue\<close>

text \<open>
  Calling \<open>undefined\<close> as a function or reading a property of \<open>undefined\<close> throws a
  \<open>TypeError\<close>.
\<close>

datatype error = TypeError

text \<open>
  The theme tables and \<open>typeMap\<close> are plain objects: reading them under a name that is not
  a key of their own gives the member of that name that every object inherits from
  \<open>Object.prototype\<close>, when there is one, and \<open>undefined\<close> otherwise. A table is a map from
  its own keys to the strings it holds. \<open>Foreign\<close> stands for a value that is not such a
  string: an inherited member (a function or an object, by its name), or what the call of one
  returned. A foreign value is never \<open>undefined\<close> and is truthy.
\<close>

datatype jsval = Str string | Foreign string

definition objectPrototypeNames :: "string list" where
  "objectPrototypeNames =
     [''constructor'', ''__defineGetter__'', ''__defineSetter__'', ''hasOwnProperty'',
      ''__lookupGetter__'', ''__lookupSetter__'', ''isPrototypeOf'', ''propertyIsEnumerable'',
      ''toString'', ''valueOf'', ''__proto__'', ''toLocaleString'']"

definition js_get :: "(string \<rightharpoonup> string) \<Rightarrow> string \<Rightarrow> jsval option" where
  "js_get obj key =
     (case obj key of
        Some v \<Rightarrow> Some (Str v)
      | None \<Rightarrow> if key \<in> set objectPrototypeNames then Some (Foreign key) else None)"


text \<open>
  The module \<open>./dataTypes\<close> is imported, not defined, by pluginUtils.js: its
  \<open>normalize\<close> and its validators are parameters of the model. \<open>validateColor\<close> is the
  source's name for the imported \<open>color\<close>; the suffix \<open>_dt\<close> marks a name that is taken
  in HOL.
\<close>

record dataTypes =
  normalize_dt :: "string \<Rightarrow> string"
  length_dt :: "string \<Rightarrow> bool"
  number :: "string \<Rightarrow> bool"
  percentage :: "string \<Rightarrow> bool"
  url :: "string \<Rightarrow> bool"
  validateColor :: "string \<Rightarrow> bool"
  genericName :: "string \<Rightarrow> bool"
  familyName :: "string \<Rightarrow> bool"
  image_dt :: "string \<Rightarrow> bool"
  absoluteSize :: "string \<Rightarrow> bool"
  relativeSize :: "string \<Rightarrow> bool"
  position :: "string \<Rightarrow> bool"
  lineWidth :: "string \<Rightarrow> bool"


text \<open>
  Only the parts of the configuration that the source reads are kept:
  \<open>tailwindConfig.theme?.opacity?.[alpha]\<close>, and the entry \<open>validate\<close> that \<open>asValue\<close>
  reads when the configuration is passed as its options (\<open>validate_cfg\<close>, absent in a
  configuration that has no such entry). A missing configuration (the default \<open>{}\<close>) has
  neither.
\<close>

record theme_config =
  opacity :: "(string \<rightharpoonup> string) option"

record tailwind_config =
  theme :: "theme_config option"
  validate_cfg :: "(string \<Rightarrow> bool) option"

definition themeOpacity :: "tailwind_config \<Rightarrow> string \<Rightarrow> jsval option" where
  "themeOpacity tailwindConfig alpha =
     (case theme tailwindConfig of
        None \<Rightarrow> None
      | Some t \<Rightarrow> (case opacity t of None \<Rightarrow> None | Some scale \<Rightarrow> js_get scale alpha))"

definition isArbitraryValue :: "string \<Rightarrow> bool" where
  "isArbitraryValue input = (startsWith input ''['' \<and> endsWith input '']'')"


text \<open>
  \<open>asValue(modifier, lookup, { validate })\<close>. The third argument is \<open>None\<close> when the
  caller gives no \<open>validate\<close> entry, and the default \<open>() => true\<close> applies.
\<close>

definition asValue ::
  "dataTypes \<Rightarrow> string \<Rightarrow> (string \<rightharpoonup> string) \<Rightarrow> (string \<Rightarrow> bool) option \<Rightarrow> jsval option" where
  "asValue dt modifier lookup validate =
     (case js_get lookup modifier of
        Some v \<Rightarrow> Some v
      | None \<Rightarrow>
          if \<not> isArbitraryValue modifier then None
          else
            (let v = js_slice modifier 1 (- 1)
             in if \<not> (case validate of None \<Rightarrow> True | Some f \<Rightarrow> f v) then None
                else Some (Str (normalize_dt dt v))))"


text \<open>
  \<open>splitAlpha\<close> returns a one-element or a two-element array; destructuring the former
  leaves \<open>alpha\<close> undefined.
\<close>

definition splitAlpha :: "string \<Rightarrow> string \<times> string option" where
  "splitAlpha modifier =
     (let slashIdx = lastIndexOf modifier ''/''
      in if slashIdx = - 1 \<or> slashIdx = int (length modifier) - 1 then (modifier, None)
         else (js_slice modifier 0 slashIdx, Some (js_slice_from modifier (slashIdx + 1))))"


text \<open>
  \<open>asColor\<close>. The imported \<open>withAlphaValue\<close> is a parameter; it receives whatever the
  table and the opacity scale gave and may return \<open>undefined\<close>.
  \<open>isArbitraryValue(alpha)\<close> on an undefined \<open>alpha\<close> would throw.
\<close>

definition asColor ::
  "dataTypes \<Rightarrow> (jsval \<Rightarrow> jsval \<Rightarrow> jsval option) \<Rightarrow> string \<Rightarrow> (string \<rightharpoonup> string) \<Rightarrow>
   tailwind_config \<Rightarrow> error + jsval option" where
  "asColor dt withAlphaValue modifier lookup tailwindConfig =
     (case js_get lookup modifier of
        Some v \<Rightarrow> Inr (Some v)
      | None \<Rightarrow>
          (case splitAlpha modifier of (color, alpha) \<Rightarrow>
             (case js_get lookup color of
                Some c \<Rightarrow>
                  (case alpha of
                     None \<Rightarrow> Inl TypeError
                   | Some a \<Rightarrow>
                       if isArbitraryValue a then Inr (withAlphaValue c (Str (js_slice a 1 (- 1))))
                       else
                         (case themeOpacity tailwindConfig a of
                            None \<Rightarrow> Inr None
                          | Some opa \<Rightarrow> Inr (withAlphaValue c opa)))
              | None \<Rightarrow> Inr (asValue dt modifier lookup (Some (validateColor dt))))))"

definition asLookupValue :: "string \<Rightarrow> (string \<rightharpoonup> string) \<Rightarrow> jsval option" where
  "asLookupValue modifier lookup = js_get lookup modifier"


text \<open>
  The entries of \<open>typeMap\<close>, in the order of the object literal; \<open>supportedTypes\<close> is
  \<open>Object.keys(typeMap)\<close>, the list of its own keys. The entry \<open>any\<close> is \<open>asValue\<close>
  itself, which is called with the configuration as its options. \<open>typeMap[type]\<close> under a
  name that \<open>typeMap\<close> inherits is a member of \<open>Object.prototype\<close>; what calling it like a
  resolver gives is the parameter \<open>inherited\<close>: an error when the call throws, \<open>None\<close>
  for a falsy result, and a value otherwise.
\<close>

type_synonym resolver = "string \<Rightarrow> (string \<rightharpoonup> string) \<Rightarrow> tailwind_config \<Rightarrow> error + jsval option"

definition guess :: "dataTypes \<Rightarrow> (string \<Rightarrow> bool) \<Rightarrow> resolver" where
  "guess dt validate = (\<lambda>modifier lookup tailwindConfig. Inr (asValue dt modifier lookup (Some validate)))"

definition typeMapEntries ::
  "dataTypes \<Rightarrow> (jsval \<Rightarrow> jsval \<Rightarrow> jsval option) \<Rightarrow> (string \<times> resolver) list" where
  "typeMapEntries dt withAlphaValue =
     [(''any'', \<lambda>modifier lookup tailwindConfig.
         Inr (asValue dt modifier lookup (validate_cfg tailwindConfig))),
      (''color'', asColor dt withAlphaValue),
      (''url'', guess dt (url dt)),
      (''image'', guess dt (image_dt dt)),
      (''length'', guess dt (length_dt dt)),
      (''percentage'', guess dt (percentage dt)),
      (''position'', guess dt (position dt)),
      (''lookup'', \<lambda>modifier lookup tailwindConfig. Inr (asLookupValue modifier lookup)),
      (''generic-name'', guess dt (genericName dt)),
      (''family-name'', guess dt (familyName dt)),
      (''number'', guess dt (number dt)),
      (''line-width'', guess dt (lineWidth dt)),
      (''absolute-size'', guess dt (absoluteSize dt)),
      (''relative-size'', guess dt (relativeSize dt))]"

definition typeMap ::
  "dataTypes \<Rightarrow> (jsval \<Rightarrow> jsval \<Rightarrow> jsval option) \<Rightarrow> (string \<Rightarrow> resolver) \<Rightarrow> string \<Rightarrow>
   resolver option" where
  "typeMap dt withAlphaValue inherited ty =
     (case map_of (typeMapEntries dt withAlphaValue) ty of
        Some resolve \<Rightarrow> Some resolve
      | None \<Rightarrow> if ty \<in> set objectPrototypeNames then Some (inherited ty) else None)"

definition supportedTypes :: "string list" where
  "supportedTypes =
     [''any'', ''color'', ''url'', ''image'', ''length'', ''percentage'', ''position'', ''lookup'',
      ''generic-name'', ''family-name'', ''number'', ''line-width'', ''absolute-size'',
      ''relative-size'']"

definition splitAtFirst :: "string \<Rightarrow> string \<Rightarrow> string option \<times> string" where
  "splitAtFirst input delim =
     (let idx = indexOf input delim 0
      in if idx = - 1 then (None, input)
         else (Some (js_slice input 0 idx), js_slice_from input (idx + 1)))"


text \<open>
  \<open>coerceValue\<close> returns the empty array or a pair \<open>[value, type]\<close>; on the path of an
  explicit type the first component is whatever \<open>asValue\<close> returned. A result is truthy
  when it is a non-empty string or a foreign value.
\<close>

datatype coerced = NoMatch | Match "jsval option" string

definition truthy :: "jsval option \<Rightarrow> bool" where
  "truthy result =
     (case result of None \<Rightarrow> False | Some (Str s) \<Rightarrow> s \<noteq> [] | Some (Foreign f) \<Rightarrow> True)"

fun firstMatchingType ::
  "dataTypes \<Rightarrow> (jsval \<Rightarrow> jsval \<Rightarrow> jsval option) \<Rightarrow> (string \<Rightarrow> resolver) \<Rightarrow> string list \<Rightarrow>
   string \<Rightarrow> (string \<rightharpoonup> string) \<Rightarrow> tailwind_config \<Rightarrow> error + coerced" where
  "firstMatchingType dt withAlphaValue inherited [] modifier vals tailwindConfig = Inr NoMatch"
| "firstMatchingType dt withAlphaValue inherited (ty # types) modifier vals tailwindConfig =
     (case typeMap dt withAlphaValue inherited ty of
        None \<Rightarrow> Inl TypeError
      | Some resolve \<Rightarrow>
          (case resolve modifier vals tailwindConfig of
             Inl e \<Rightarrow> Inl e
           | Inr result \<Rightarrow>
               if truthy result then Inr (Match result ty)
               else firstMatchingType dt withAlphaValue inherited types modifier vals
                      tailwindConfig))"


text \<open>
  \<open>coerceValue(types, modifier, values, tailwindConfig)\<close>. With no colon in the brackets
  \<open>explicitType\<close> is undefined, both tests of the source fail and the loop over \<open>types\<close>
  runs. On the path of an explicit type \<open>asValue\<close> receives the configuration as its
  options and so reads the configuration's \<open>validate\<close> entry.
\<close>

definition coerceValue ::
  "dataTypes \<Rightarrow> (jsval \<Rightarrow> jsval \<Rightarrow> jsval option) \<Rightarrow> (string \<Rightarrow> resolver) \<Rightarrow> string list \<Rightarrow>
   string \<Rightarrow> (string \<rightharpoonup> string) \<Rightarrow> tailwind_config \<Rightarrow> error + coerced" where
  "coerceValue dt withAlphaValue inherited types modifier vals tailwindConfig =
     (if isArbitraryValue modifier then
        (case splitAtFirst (js_slice modifier 1 (- 1)) '':'' of (explicitType, v) \<Rightarrow>
           (case explicitType of
              None \<Rightarrow>
                firstMatchingType dt withAlphaValue inherited types modifier vals tailwindConfig
            | Some t \<Rightarrow>
                if t \<notin> set supportedTypes then Inr NoMatch
                else if length v > 0 \<and> t \<in> set supportedTypes
                  then Inr (Match (asValue dt (''['' @ v @ '']'') vals (validate_cfg tailwindConfig)) t)
                else firstMatchingType dt withAlphaValue inherited types modifier vals
                       tailwindConfig))
      else firstMatchingType dt withAlphaValue inherited types modifier vals tailwindConfig)"


text \<open>
  Concrete parameters for evaluating the functions on examples: validators of which only
  the colour validator accepts anything, a stand-in for \<open>withAlphaValue\<close> that shows both
  of its arguments in its result, a stand-in for the calls of inherited members, and a
  configuration with the opacity scale \<open>{50: '0.5'}\<close> and no \<open>validate\<close> entry.
\<close>

definition sampleDataTypes :: dataTypes where
  "sampleDataTypes = \<lparr> normalize_dt = (\<lambda>v. v), length_dt = (\<lambda>v. False), number = (\<lambda>v. False),
     percentage = (\<lambda>v. False), url = (\<lambda>v. False), validateColor = (\<lambda>v. take 1 v = ''#''),
     genericName = (\<lambda>v. False), familyName = (\<lambda>v. False), image_dt = (\<lambda>v. False),
     absoluteSize = (\<lambda>v. False), relativeSize = (\<lambda>v. False), position = (\<lambda>v. False),
     lineWidth = (\<lambda>v. False) \<rparr>"

fun sampleText :: "jsval \<Rightarrow> string" where
  "sampleText (Str s) = s"
| "sampleText (Foreign f) = ''<'' @ f @ ''>''"

definition sampleWithAlphaValue :: "jsval \<Rightarrow> jsval \<Rightarrow> jsval option" where
  "sampleWithAlphaValue color alphaValue =
     Some (Str (sampleText color @ '' / '' @ sampleText alphaValue))"

definition sampleInherited :: "string \<Rightarrow> resolver" where
  "sampleInherited name = (\<lambda>modifier lookup tailwindConfig. Inr (Some (Foreign name)))"

definition sampleConfig :: tailwind_config where
  "sampleConfig = \<lparr> theme = Some \<lparr> opacity = Some [''50'' \<mapsto> ''0.5''] \<rparr>, validate_cfg = None \<rparr>"


section \<open>Selector trees: updateAllClasses and updateLastClasses\<close>

text \<open>
  The selector parser is a library; the source uses its parser, \<open>walkClasses\<close>, \<open>each\<close>,
  \<open>filter\<close>, \<open>insertAfter\<close> and its serializer. A root holds the comma-separated
  selectors, a selector holds its nodes, and a pseudo node holds the selectors of its
  arguments. A class node has its \<open>value\<close> and its optional \<open>raws.value\<close>. \<open>Simple\<close> stands
  for a node of any other type (tag, id, attribute, combinator, universal, nesting, comment,
  string), with its type and its text.
\<close>

datatype snode =
    ClassName string "string option"
  | Pseudo string "snode list list"
  | Simple string string

fun isClass :: "snode \<Rightarrow> bool" where
  "isClass (ClassName v r) = True"
| "isClass n = False"


text \<open>
  What both functions do to one class node. The source's callback receives the class name
  and the helper \<open>withPseudo\<close>; the model's callback returns the new class name and the
  pseudo values it passed to \<open>withPseudo\<close>, in the order of the calls. Each call inserts a
  pseudo node right after the class node, so the node of a later call stands before the node
  of an earlier one. Assigning \<open>value\<close> runs the library's setter, whose effect on
  \<open>raws.value\<close> is the parameter \<open>setRaws\<close>; the imported \<open>escapeCommas\<close> is a parameter
  too, applied when \<open>raws.value\<close> is a non-empty string.
\<close>

definition rewriteClass ::
  "(string \<Rightarrow> string option \<Rightarrow> string option) \<Rightarrow> (string \<Rightarrow> string) \<Rightarrow>
   (string \<Rightarrow> string \<times> string list) \<Rightarrow> string \<Rightarrow> string option \<Rightarrow> snode list" where
  "rewriteClass setRaws escapeCommas updateClass v raws =
     (case updateClass v of (updatedClass, pseudos) \<Rightarrow>
        (let raws1 = setRaws updatedClass raws;
             raws2 = (case raws1 of
                        None \<Rightarrow> None
                      | Some r \<Rightarrow> if r \<noteq> [] then Some (escapeCommas r) else Some r)
         in ClassName updatedClass raws2 # map (\<lambda>pseudo. Pseudo pseudo []) (rev pseudos)))"


text \<open>
  \<open>walkClasses\<close> visits every class node of a container in document order and descends
  into the arguments of pseudo nodes. \<open>insertAfter\<close> moves the index of the running
  iteration past the inserted node, so the walk does not visit the pseudo nodes the callback
  inserts. \<open>visit\<close> gives the nodes that stand in place of the visited class node afterwards.
\<close>

fun walkClasses :: "(string \<Rightarrow> string option \<Rightarrow> snode list) \<Rightarrow> snode list \<Rightarrow> snode list" where
  "walkClasses visit [] = []"
| "walkClasses visit (ClassName v r # ns) = visit v r @ walkClasses visit ns"
| "walkClasses visit (Pseudo v sels # ns) =
     Pseudo v (map (walkClasses visit) sels) # walkClasses visit ns"
| "walkClasses visit (Simple k t # ns) = Simple k t # walkClasses visit ns"


text \<open>The number of class nodes of a selector, those inside pseudo arguments included.\<close>

fun countClasses :: "snode list \<Rightarrow> nat" where
  "countClasses [] = 0"
| "countClasses (ClassName v r # ns) = Suc (countClasses ns)"
| "countClasses (Pseudo v sels # ns) = sum_list (map countClasses sels) + countClasses ns"
| "countClasses (Simple k t # ns) = countClasses ns"

definition classCount :: "snode list list \<Rightarrow> nat" where
  "classCount root = sum_list (map countClasses root)"


text \<open>
  \<open>updateAllClasses\<close>: the transform given to the parser, and the whole function, which
  parses, transforms and serializes. \<open>parse\<close> is \<open>None\<close> when the parser throws.
\<close>

definition updateAllClassesAst ::
  "(string \<Rightarrow> string option \<Rightarrow> string option) \<Rightarrow> (string \<Rightarrow> string) \<Rightarrow>
   (string \<Rightarrow> string \<times> string list) \<Rightarrow> snode list list \<Rightarrow> snode list list" where
  "updateAllClassesAst setRaws escapeCommas updateClass root =
     map (walkClasses (rewriteClass setRaws escapeCommas updateClass)) root"

definition updateAllClasses ::
  "(string \<Rightarrow> snode list list option) \<Rightarrow> (snode list list \<Rightarrow> string) \<Rightarrow>
   (string \<Rightarrow> string option \<Rightarrow> string option) \<Rightarrow> (string \<Rightarrow> string) \<Rightarrow>
   string \<Rightarrow> (string \<Rightarrow> string \<times> string list) \<Rightarrow> string option" where
  "updateAllClasses parse serialize setRaws escapeCommas selectors updateClass =
     (case parse selectors of
        None \<Rightarrow> None
      | Some root \<Rightarrow> Some (serialize (updateAllClassesAst setRaws escapeCommas updateClass root)))"


text \<open>
  \<open>updateLastClasses\<close>: \<open>sel.filter(({ type }) => type === 'class').pop()\<close> is the last
  direct child of the selector that is a class node, kept here with its index, which stands
  for the identity of the node. With no such child the callback returns early.
\<close>

definition lastClass :: "snode list \<Rightarrow> (nat \<times> snode) option" where
  "lastClass sel =
     (case filter (\<lambda>(i, n). isClass n) (enumerate 0 sel) of
        [] \<Rightarrow> None
      | c # cs \<Rightarrow> Some (last (c # cs)))"

definition updateLastClass ::
  "(string \<Rightarrow> string option \<Rightarrow> string option) \<Rightarrow> (string \<Rightarrow> string) \<Rightarrow>
   (string \<Rightarrow> string \<times> string list) \<Rightarrow> snode list \<Rightarrow> snode list" where
  "updateLastClass setRaws escapeCommas updateClass sel =
     (case lastClass sel of
        None \<Rightarrow> sel
      | Some (i, ClassName v r) \<Rightarrow>
          take i sel @ rewriteClass setRaws escapeCommas updateClass v r @ drop (Suc i) sel
      | Some (i, n) \<Rightarrow> sel)"

definition updateLastClassesAst ::
  "(string \<Rightarrow> string option \<Rightarrow> string option) \<Rightarrow> (string \<Rightarrow> string) \<Rightarrow>
   (string \<Rightarrow> string \<times> string list) \<Rightarrow> snode list list \<Rightarrow> snode list list" where
  "updateLastClassesAst setRaws escapeCommas updateClass root =
     map (updateLastClass setRaws escapeCommas updateClass) root"

definition updateLastClasses ::
  "(string \<Rightarrow> snode list list option) \<Rightarrow> (snode list list \<Rightarrow> string) \<Rightarrow>
   (string \<Rightarrow> string option \<Rightarrow> string option) \<Rightarrow> (string \<Rightarrow> string) \<Rightarrow>
   string \<Rightarrow> (string \<Rightarrow> string \<times> string list) \<Rightarrow> string option" where
  "updateLastClasses parse serialize setRaws escapeCommas selectors updateClass =
     (case parse selectors of
        None \<Rightarrow> None
      | Some root \<Rightarrow> Some (serialize (updateLastClassesAst setRaws escapeCommas updateClass root)))"

text \<open>Concrete parameters and a root for evaluating the selector functions.\<close>

definition sampleSetRaws :: "string \<Rightarrow> string option \<Rightarrow> string option" where
  "sampleSetRaws v raws = None"

definition sampleEscapeCommas :: "string \<Rightarrow> string" where
  "sampleEscapeCommas className = className"

definition sampleUpdateClass :: "string \<Rightarrow> string \<times> string list" where
  "sampleUpdateClass className = (''hover:'' @ className, ['':hover''])"

definition sampleRoot :: "snode list list" where
  "sampleRoot =
     [[Simple ''tag'' ''div''],
      [ClassName ''a'' None, Simple ''combinator'' '' '', ClassName ''b'' None, Simple ''attribute'' ''[x]'']]"



section \<open>Rule trees: transformAllSelectors\<close>

text \<open>
  The nodes of the CSS tree library: a declaration (property, text), a comment, a rule
  (selector, children) and an at-rule (name, params, children). The container passed to the
  transform is the list of its children. A \<open>parent\<close> is what a rule can read of an ancestor.
\<close>

datatype node =
    Decl string string
  | Comment string
  | Rule string "node list"
  | AtRule string string "node list"

datatype parent = RuleParent string | AtRuleParent string string


text \<open>How deep rules and at-rules are nested in a list of nodes.\<close>

fun depthNodes :: "node list \<Rightarrow> nat" where
  "depthNodes [] = 0"
| "depthNodes (Decl p v # ns) = depthNodes ns"
| "depthNodes (Comment t # ns) = depthNodes ns"
| "depthNodes (Rule sel kids # ns) = max (Suc (depthNodes kids)) (depthNodes ns)"
| "depthNodes (AtRule name params kids # ns) = max (Suc (depthNodes kids)) (depthNodes ns)"


text \<open>
  \<open>container.walkRules(callback)\<close> visits every rule below the container in document order:
  the callback on the rule first, then the children the rule has afterwards, then the next
  sibling. The callback edits the rule it is given (its selector and its children) and the
  model records the events it reports. The source's callback returns the rule, never
  \<open>false\<close>, so the walk is never cut short. Since a callback may hand back children that
  nest rules deeper, the descent is not structural: \<open>fuel\<close> bounds the nesting depth the
  walk enters, and \<open>None\<close> means that it ran out. The ancestors of the visited rule
  (nearest first) are passed along.
\<close>

fun walkRules ::
  "nat \<Rightarrow> (parent list \<Rightarrow> string \<Rightarrow> node list \<Rightarrow> (string \<times> node list) \<times> 'e list) \<Rightarrow>
   parent list \<Rightarrow> node list \<Rightarrow> (node list \<times> 'e list) option" where
  "walkRules fuel callback parents [] = Some ([], [])"
| "walkRules fuel callback parents (Decl p v # ns) =
     (case walkRules fuel callback parents ns of
        None \<Rightarrow> None
      | Some (ns', es) \<Rightarrow> Some (Decl p v # ns', es))"
| "walkRules fuel callback parents (Comment t # ns) =
     (case walkRules fuel callback parents ns of
        None \<Rightarrow> None
      | Some (ns', es) \<Rightarrow> Some (Comment t # ns', es))"
| "walkRules 0 callback parents (Rule sel kids # ns) = None"
| "walkRules (Suc fuel) callback parents (Rule sel kids # ns) =
     (case callback parents sel kids of
        ((sel', kids'), es1) \<Rightarrow>
          (case walkRules fuel callback (RuleParent sel' # parents) kids' of
             None \<Rightarrow> None
           | Some (kids'', es2) \<Rightarrow>
               (case walkRules (Suc fuel) callback parents ns of
                  None \<Rightarrow> None
                | Some (ns', es3) \<Rightarrow> Some (Rule sel' kids'' # ns', es1 @ es2 @ es3))))"
| "walkRules 0 callback parents (AtRule name params kids # ns) = None"
| "walkRules (Suc fuel) callback parents (AtRule name params kids # ns) =
     (case walkRules fuel callback (AtRuleParent name params # parents) kids of
        None \<Rightarrow> None
      | Some (kids', es1) \<Rightarrow>
          (case walkRules (Suc fuel) callback parents ns of
             None \<Rightarrow> None
           | Some (ns', es2) \<Rightarrow> Some (AtRule name params kids' # ns', es1 @ es2)))"


text \<open>
  \<open>splitByNotEscapedCommas(rule.selector).map(transformSelector).join(',')\<close>. A transform
  may return \<open>null\<close> (the relational variants do), which \<open>join\<close> renders as the empty string.
\<close>

definition transformSelector_text :: "(string \<Rightarrow> string option) \<Rightarrow> string \<Rightarrow> string" where
  "transformSelector_text transformSelector selector =
     js_join '','' (map (\<lambda>piece. js_str (transformSelector piece)) (splitByNotEscapedCommas selector))"


text \<open>
  The callback that \<open>transformAllSelectors\<close> gives to \<open>walkRules\<close>. The imported
  \<open>isKeyframeRule\<close> is a parameter: a predicate on the rule in its place (its ancestors, its
  selector, its children). \<open>withRule\<close> is the optional hook. The second component of the
  result lists the calls of the hook: the ancestors of the rule it was called on, the
  selector the rule had when the walk reached it, and the selector and the children the rule
  had when the hook was called.
\<close>

datatype hook_call = HookCall "parent list" string string "node list"

definition transformRule ::
  "(string \<Rightarrow> string option) \<Rightarrow> (string \<Rightarrow> node list \<Rightarrow> string \<times> node list) option \<Rightarrow>
   (parent list \<Rightarrow> string \<Rightarrow> node list \<Rightarrow> bool) \<Rightarrow>
   parent list \<Rightarrow> string \<Rightarrow> node list \<Rightarrow> (string \<times> node list) \<times> hook_call list" where
  "transformRule transformSelector withRule isKeyframeRule parents selector nodes =
     (if isKeyframeRule parents selector nodes then ((selector, nodes), [])
      else
        (let transformed = transformSelector_text transformSelector selector
         in case withRule of
              None \<Rightarrow> ((transformed, nodes), [])
            | Some hook \<Rightarrow>
                (hook transformed nodes, [HookCall parents selector transformed nodes])))"


text \<open>
  \<open>transformAllSelectors(transformSelector, { wrap, withRule })\<close> applied to a container.
  \<open>wrap()\<close> returns a new at-rule: its name, its params and the children it is created
  with. After the walk the container's children are appended to the wrapper's, and the
  wrapper becomes the container's only child.
\<close>

definition transformAllSelectors ::
  "(string \<Rightarrow> string option) \<Rightarrow> (string \<times> string \<times> node list) option \<Rightarrow>
   (string \<Rightarrow> node list \<Rightarrow> string \<times> node list) option \<Rightarrow>
   (parent list \<Rightarrow> string \<Rightarrow> node list \<Rightarrow> bool) \<Rightarrow>
   nat \<Rightarrow> node list \<Rightarrow> (node list \<times> hook_call list) option" where
  "transformAllSelectors transformSelector wrap withRule isKeyframeRule fuel container =
     (case walkRules fuel (transformRule transformSelector withRule isKeyframeRule) [] container of
        None \<Rightarrow> None
      | Some (nodes, calls) \<Rightarrow>
          (case wrap of
             None \<Rightarrow> Some (nodes, calls)
           | Some (name, params, wrapperNodes) \<Rightarrow>
               Some ([AtRule name params (wrapperNodes @ nodes)], calls)))"


text \<open>
  The specification's wording of the walk, to compare the walk with: every rule keeps its
  selector when it is a keyframe rule and receives the rewritten selector otherwise;
  everything else stays as it is.
\<close>

fun spec_rewriteRules ::
  "(string \<Rightarrow> string option) \<Rightarrow> (parent list \<Rightarrow> string \<Rightarrow> node list \<Rightarrow> bool) \<Rightarrow>
   parent list \<Rightarrow> node list \<Rightarrow> node list" where
  "spec_rewriteRules T isK parents [] = []"
| "spec_rewriteRules T isK parents (Decl p v # ns) = Decl p v # spec_rewriteRules T isK parents ns"
| "spec_rewriteRules T isK parents (Comment t # ns) = Comment t # spec_rewriteRules T isK parents ns"
| "spec_rewriteRules T isK parents (Rule sel kids # ns) =
     (let sel' = (if isK parents sel kids then sel else transformSelector_text T sel)
      in Rule sel' (spec_rewriteRules T isK (RuleParent sel' # parents) kids)
           # spec_rewriteRules T isK parents ns)"
| "spec_rewriteRules T isK parents (AtRule name params kids # ns) =
     AtRule name params (spec_rewriteRules T isK (AtRuleParent name params # parents) kids)
       # spec_rewriteRules T isK parents ns"

text \<open>A hook that does not nest the children of the rule deeper than they were.\<close>

definition hookKeepsDepth :: "(string \<Rightarrow> node list \<Rightarrow> string \<times> node list) option \<Rightarrow> bool" where
  "hookKeepsDepth withRule =
     (case withRule of
        None \<Rightarrow> True
      | Some hook \<Rightarrow> \<forall>sel kids. depthNodes (snd (hook sel kids)) \<le> depthNodes kids)"

text \<open>
  Two nodes stand for the same node of the tree: equal declarations and comments, rules, or
  at-rules with the same name and params.
\<close>

fun sameKind :: "node \<Rightarrow> node \<Rightarrow> bool" where
  "sameKind (Decl p v) n = (n = Decl p v)"
| "sameKind (Comment t) n = (n = Comment t)"
| "sameKind (Rule sel kids) n = (case n of Rule sel' kids' \<Rightarrow> True | _ \<Rightarrow> False)"
| "sameKind (AtRule name params kids) n =
     (case n of AtRule name' params' kids' \<Rightarrow> name' = name \<and> params' = params | _ \<Rightarrow> False)"

text \<open>
  Concrete parameters for evaluating the transform: a transform that appends \<open>:hover\<close>, a
  keyframe test on the name of the parent at-rule, and a hook that prepends a \<open>content\<close>
  declaration.
\<close>

definition sampleTransform :: "string \<Rightarrow> string option" where
  "sampleTransform piece = Some (piece @ '':hover'')"

definition sampleIsKeyframeRule :: "parent list \<Rightarrow> string \<Rightarrow> node list \<Rightarrow> bool" where
  "sampleIsKeyframeRule parents selector nodes =
     (case parents of
        AtRuleParent name params # ps \<Rightarrow> endsWith name ''keyframes''
      | _ \<Rightarrow> False)"

definition contentHook :: "string \<Rightarrow> node list \<Rightarrow> string \<times> node list" where
  "contentHook selector nodes = (selector, Decl ''content'' [CHR 0x22, CHR 0x22] # nodes)"

definition sampleContainer :: "node list" where
  "sampleContainer =
     [Rule ''.a,.b'' [Decl ''color'' ''red''],
      AtRule ''keyframes'' ''spin'' [Rule ''from, to'' [Decl ''opacity'' ''1'']]]"

section \<open>Properties of splitByNotEscapedCommas\<close>

lemma js_join_snoc:
  "js_join sep (xs @ [x]) = (if xs = [] then x else js_join sep xs @ sep @ x)"
  by (induction sep xs rule: js_join.induct) auto

lemma js_join_snoc_append:
  "js_join sep (xs @ [x @ y]) = js_join sep (xs @ [x]) @ y"
  by (simp add: js_join_snoc)

lemma splitLoop_join:
  "i \<le> length str \<Longrightarrow>
   js_join '','' (splitLoop str i chunks cur) = js_join '','' (chunks @ [cur]) @ drop i str"
proof (induction str i chunks cur rule: splitLoop.induct)
  case (1 str i chunks currentChunk)
  show ?case
  proof (cases "i < length str")
    case False
    then have "splitLoop str i chunks currentChunk = chunks @ [currentChunk]"
      by (subst splitLoop.simps) simp
    with False "1.prems" show ?thesis
      by simp
  next
    case True
    then have d: "drop i str = str ! i # drop (Suc i) str"
      by (simp add: Cons_nth_drop_Suc)
    show ?thesis
    proof (cases "charAt str (int i) = Some CHR '','' \<and> charAt str (int i - 1) \<noteq> Some CHR 0x5C")
      case comma: True
      with True have c: "str ! i = CHR '',''"
        by (simp add: charAt_def)
      from comma True "1.IH"(1)
      have "js_join '','' (splitLoop str (i + 1) (chunks @ [currentChunk]) [])
            = js_join '','' ((chunks @ [currentChunk]) @ [[]]) @ drop (i + 1) str"
        by simp
      also have "js_join '','' ((chunks @ [currentChunk]) @ [[]])
            = js_join '','' (chunks @ [currentChunk]) @ '',''"
        by (subst js_join_snoc) simp
      finally have step: "js_join '','' (splitLoop str (i + 1) (chunks @ [currentChunk]) [])
            = js_join '','' (chunks @ [currentChunk]) @ drop i str"
        using c d by simp
      from comma True
      have "splitLoop str i chunks currentChunk = splitLoop str (i + 1) (chunks @ [currentChunk]) []"
        by (subst splitLoop.simps) simp
      with step show ?thesis
        by simp
    next
      case other: False
      from other True "1.IH"(2)
      have "js_join '','' (splitLoop str (i + 1) chunks (currentChunk @ [str ! i]))
            = js_join '','' (chunks @ [currentChunk @ [str ! i]]) @ drop (i + 1) str"
        by simp
      then have step: "js_join '','' (splitLoop str (i + 1) chunks (currentChunk @ [str ! i]))
            = js_join '','' (chunks @ [currentChunk]) @ drop i str"
        using d by (simp add: js_join_snoc_append)
      from other True
      have "splitLoop str i chunks currentChunk = splitLoop str (i + 1) chunks (currentChunk @ [str ! i])"
        by (subst splitLoop.simps) auto
      with step show ?thesis
        by simp
    qed
  qed
qed

lemma escapedCommasOnly_Nil: "escapedCommasOnly []"
  by (simp add: escapedCommasOnly_def)

lemma escapedCommasOnly_snoc:
  assumes "escapedCommasOnly cur"
    and "c = CHR '','' \<Longrightarrow> cur \<noteq> [] \<and> last cur = CHR 0x5C"
  shows "escapedCommasOnly (cur @ [c])"
  unfolding escapedCommasOnly_def
proof (intro allI impI)
  fix i
  assume i: "i < length (cur @ [c])" and comma: "(cur @ [c]) ! i = CHR '',''"
  show "0 < i \<and> (cur @ [c]) ! (i - 1) = CHR 0x5C"
  proof (cases "i < length cur")
    case True
    with comma have "cur ! i = CHR '',''"
      by (simp add: nth_append)
    with assms(1) True have "0 < i \<and> cur ! (i - 1) = CHR 0x5C"
      by (simp add: escapedCommasOnly_def)
    moreover from True have "i - 1 < length cur" by simp
    ultimately show ?thesis
      by (simp add: nth_append)
  next
    case False
    with i have e: "i = length cur" by simp
    with comma have "c = CHR '',''" by simp
    with assms(2) have "cur \<noteq> []" "last cur = CHR 0x5C" by simp_all
    with e show ?thesis
      by (simp add: nth_append last_conv_nth)
  qed
qed

lemma splitLoop_chunks:
  "i \<le> length str \<Longrightarrow>
   \<forall>c\<in>set chunks. escapedCommasOnly c \<and> \<not> endsWith c [CHR 0x5C] \<Longrightarrow>
   escapedCommasOnly cur \<Longrightarrow>
   (if cur = [] then i = 0 \<or> str ! (i - 1) = CHR '','' else 0 < i \<and> last cur = str ! (i - 1)) \<Longrightarrow>
   (\<forall>c\<in>set (splitLoop str i chunks cur). escapedCommasOnly c) \<and>
   (\<forall>c\<in>set (butlast (splitLoop str i chunks cur)). \<not> endsWith c [CHR 0x5C])"
proof (induction str i chunks cur rule: splitLoop.induct)
  case (1 str i chunks currentChunk)
  note inv = "1.prems"
  show ?case
  proof (cases "i < length str")
    case False
    then have "splitLoop str i chunks currentChunk = chunks @ [currentChunk]"
      by (subst splitLoop.simps) simp
    with inv show ?thesis by simp
  next
    case True
    show ?thesis
    proof (cases "charAt str (int i) = Some CHR '','' \<and> charAt str (int i - 1) \<noteq> Some CHR 0x5C")
      case cut: True
      with True have c: "str ! i = CHR '',''" and p: "i = 0 \<or> str ! (i - 1) \<noteq> CHR 0x5C"
        by (auto simp: charAt_def nat_diff_distrib split: if_splits)
      from cut True
      have step: "splitLoop str i chunks currentChunk = splitLoop str (i + 1) (chunks @ [currentChunk]) []"
        by (subst splitLoop.simps) simp
      have e: "\<not> endsWith currentChunk [CHR 0x5C]"
      proof (cases "currentChunk = []")
        case True
        then show ?thesis by (simp add: endsWith_def)
      next
        case False
        with inv(4) have "0 < i" "last currentChunk = str ! (i - 1)" by simp_all
        with p have "last currentChunk \<noteq> CHR 0x5C" by simp
        with False show ?thesis
          by (cases currentChunk rule: rev_cases) (simp_all add: endsWith_def)
      qed
      have "(\<forall>c\<in>set (splitLoop str (i + 1) (chunks @ [currentChunk]) []). escapedCommasOnly c) \<and>
        (\<forall>c\<in>set (butlast (splitLoop str (i + 1) (chunks @ [currentChunk]) [])). \<not> endsWith c [CHR 0x5C])"
      proof (rule "1.IH"(1) [OF True cut])
        show "i + 1 \<le> length str" using True by simp
        show "\<forall>c\<in>set (chunks @ [currentChunk]). escapedCommasOnly c \<and> \<not> endsWith c [CHR 0x5C]"
          using inv(2,3) e by simp
        show "escapedCommasOnly []" by (rule escapedCommasOnly_Nil)
        show "if [] = [] then i + 1 = 0 \<or> str ! (i + 1 - 1) = CHR '',''
              else 0 < i + 1 \<and> last [] = str ! (i + 1 - 1)"
          using c by simp
      qed
      with step show ?thesis by simp
    next
      case other: False
      from other True
      have step: "splitLoop str i chunks currentChunk = splitLoop str (i + 1) chunks (currentChunk @ [str ! i])"
        by (subst splitLoop.simps) auto
      have esc: "escapedCommasOnly (currentChunk @ [str ! i])"
      proof (rule escapedCommasOnly_snoc [OF inv(3)])
        assume c: "str ! i = CHR '',''"
        with other True have p: "0 < i \<and> str ! (i - 1) = CHR 0x5C"
          by (auto simp: charAt_def nat_diff_distrib split: if_splits)
        show "currentChunk \<noteq> [] \<and> last currentChunk = CHR 0x5C"
        proof (cases "currentChunk = []")
          case True
          with inv(4) p show ?thesis by simp
        next
          case False
          with inv(4) p show ?thesis by simp
        qed
      qed
      have "(\<forall>c\<in>set (splitLoop str (i + 1) chunks (currentChunk @ [str ! i])). escapedCommasOnly c) \<and>
        (\<forall>c\<in>set (butlast (splitLoop str (i + 1) chunks (currentChunk @ [str ! i]))). \<not> endsWith c [CHR 0x5C])"
      proof (rule "1.IH"(2) [OF True other])
        show "i + 1 \<le> length str" using True by simp
        show "\<forall>c\<in>set chunks. escapedCommasOnly c \<and> \<not> endsWith c [CHR 0x5C]"
          by (rule inv(2))
        show "escapedCommasOnly (currentChunk @ [str ! i])" by (rule esc)
        show "if currentChunk @ [str ! i] = [] then i + 1 = 0 \<or> str ! (i + 1 - 1) = CHR '',''
              else 0 < i + 1 \<and> last (currentChunk @ [str ! i]) = str ! (i + 1 - 1)"
          by simp
      qed
      with step show ?thesis by simp
    qed
  qed
qed

text \<open>
  Where the cuts fall: the joined chunks give the string back, every comma inside a chunk
  stands right after a backslash, and no chunk before a cut ends with a backslash. So the
  cuts are the commas that do not stand right after a backslash.
\<close>

lemma splitByNotEscapedCommas_cuts:
  "js_join '','' (splitByNotEscapedCommas s) = s \<and>
   (\<forall>c\<in>set (splitByNotEscapedCommas s). escapedCommasOnly c) \<and>
   (\<forall>c\<in>set (butlast (splitByNotEscapedCommas s)). \<not> endsWith c [CHR 0x5C])"
  using splitLoop_chunks [of 0 s "[]" "[]"]
  by (simp add: splitByNotEscapedCommas_def splitLoop_join escapedCommasOnly_Nil)

lemma splitLoop_splitRest:
  "i \<le> length str \<Longrightarrow>
   splitLoop str i chunks cur = chunks @ splitRest (charAt str (int i - 1)) (drop i str) cur"
proof (induction str i chunks cur rule: splitLoop.induct)
  case (1 str i chunks currentChunk)
  show ?case
  proof (cases "i < length str")
    case False
    with "1.prems" have "splitLoop str i chunks currentChunk = chunks @ [currentChunk]"
      by (subst splitLoop.simps) simp
    with False "1.prems" show ?thesis by simp
  next
    case True
    then have d: "drop i str = str ! i # drop (Suc i) str"
      by (simp add: Cons_nth_drop_Suc)
    from True have here: "charAt str (int i) = Some (str ! i)"
      by (simp add: charAt_def)
    from True have nxt: "charAt str (int (i + 1) - 1) = Some (str ! i)"
      by (simp add: charAt_def)
    show ?thesis
    proof (cases "charAt str (int i) = Some CHR '','' \<and> charAt str (int i - 1) \<noteq> Some CHR 0x5C")
      case cut: True
      from cut True
      have "splitLoop str i chunks currentChunk = splitLoop str (i + 1) (chunks @ [currentChunk]) []"
        by (subst splitLoop.simps) simp
      also from "1.IH"(1) [OF True cut] True
      have "\<dots> = (chunks @ [currentChunk]) @ splitRest (charAt str (int (i + 1) - 1)) (drop (i + 1) str) []"
        by simp
      finally show ?thesis
        using cut here nxt d by simp
    next
      case other: False
      from other True
      have "splitLoop str i chunks currentChunk = splitLoop str (i + 1) chunks (currentChunk @ [str ! i])"
        by (subst splitLoop.simps) auto
      also from "1.IH"(2) [OF True other] True
      have "\<dots> = chunks @ splitRest (charAt str (int (i + 1) - 1)) (drop (i + 1) str) (currentChunk @ [str ! i])"
        by simp
      finally show ?thesis
        using other here nxt d by auto
    qed
  qed
qed

lemma splitByNotEscapedCommas_splitRest: "splitByNotEscapedCommas s = splitRest None s []"
  using splitLoop_splitRest [of 0 s "[]" "[]"]
  by (simp add: splitByNotEscapedCommas_def charAt_def)


lemma splitRest_chunk:
  "escapedCommasOnly (pre @ c) \<Longrightarrow> (pre = [] \<and> prev = p0) \<or> (pre \<noteq> [] \<and> prev = Some (last pre)) \<Longrightarrow>
   splitRest prev (c @ rest) cur =
     splitRest (if c = [] then prev else Some (last c)) rest (cur @ c)"
proof (induction c arbitrary: pre prev cur)
  case Nil
  then show ?case by simp
next
  case (Cons x xs)
  have nocut: "x = CHR '','' \<Longrightarrow> prev = Some CHR 0x5C"
  proof -
    assume x: "x = CHR '',''"
    from Cons.prems(1) have "(pre @ x # xs) ! length pre = CHR '','' \<longrightarrow>
        0 < length pre \<and> (pre @ x # xs) ! (length pre - 1) = CHR 0x5C"
      unfolding escapedCommasOnly_def by (metis length_append length_Cons less_add_Suc1 add_Suc_right)
    with x have "pre \<noteq> []" "(pre @ x # xs) ! (length pre - 1) = CHR 0x5C"
      by simp_all
    then have "pre \<noteq> []" "last pre = CHR 0x5C"
      by (simp_all add: nth_append last_conv_nth)
    with Cons.prems(2) show ?thesis by simp
  qed
  have "splitRest (Some x) (xs @ rest) (cur @ [x]) =
      splitRest (if xs = [] then Some x else Some (last xs)) rest ((cur @ [x]) @ xs)"
    by (rule Cons.IH [of "pre @ [x]"]) (use Cons.prems(1) in simp_all)
  with nocut show ?case
    by auto
qed

lemma splitRest_chunks:
  "cs \<noteq> [] \<Longrightarrow> \<forall>c\<in>set cs. escapedCommasOnly c \<Longrightarrow>
   \<forall>c\<in>set (butlast cs). \<not> endsWith c [CHR 0x5C] \<Longrightarrow> prev \<noteq> Some CHR 0x5C \<Longrightarrow>
   splitRest prev (js_join '','' cs) [] = cs"
proof (induction cs arbitrary: prev)
  case Nil
  then show ?case by simp
next
  case (Cons c cs)
  show ?case
  proof (cases cs)
    case Nil
    with Cons.prems(2) splitRest_chunk [of "[]" c prev prev "[]" "[]"] show ?thesis
      by simp
  next
    case (Cons d ds)
    let ?p = "if c = [] then prev else Some (last c)"
    from Cons Cons.prems(3) have e: "\<not> endsWith c [CHR 0x5C]" by simp
    have p: "?p \<noteq> Some CHR 0x5C"
    proof (cases "c = []")
      case True
      with Cons.prems(4) show ?thesis by simp
    next
      case False
      with e show ?thesis
        by (cases c rule: rev_cases) (simp_all add: endsWith_def)
    qed
    have j: "js_join '','' (c # cs) = c @ CHR '','' # js_join '','' cs"
      using Cons by simp
    have "splitRest prev (c @ CHR '','' # js_join '','' cs) [] =
        splitRest ?p (CHR '','' # js_join '','' cs) ([] @ c)"
      using Cons.prems(2) by (intro splitRest_chunk [of "[]" c prev prev]) simp_all
    also have "\<dots> = c # splitRest (Some CHR '','') (js_join '','' cs) []"
      using p by simp
    also have "splitRest (Some CHR '','') (js_join '','' cs) [] = cs"
      using Cons Cons.prems(2,3) by (intro Cons.IH) simp_all
    finally show ?thesis
      using j by simp
  qed
qed

text \<open>
  And these three properties fix the chunks: a list of chunks that has them is what
  \<open>splitByNotEscapedCommas\<close> returns for their comma-join.
\<close>

lemma splitByNotEscapedCommas_unique:
  "cs \<noteq> [] \<Longrightarrow> \<forall>c\<in>set cs. escapedCommasOnly c \<Longrightarrow>
   \<forall>c\<in>set (butlast cs). \<not> endsWith c [CHR 0x5C] \<Longrightarrow>
   splitByNotEscapedCommas (js_join '','' cs) = cs"
  by (simp add: splitByNotEscapedCommas_splitRest splitRest_chunks)

lemma escapedCommasOnly_no_comma: "CHR '','' \<notin> set chunk \<Longrightarrow> escapedCommasOnly chunk"
  by (auto simp: escapedCommasOnly_def dest: nth_mem)

text \<open>
  C10. Joining the chunks of \<open>splitByNotEscapedCommas s\<close> with a comma gives \<open>s\<close> back, for
  every string \<open>s\<close>: an unescaped comma ends a chunk and is the only character dropped, so
  splitting a selector and joining the unchanged pieces is the identity.
\<close>

theorem splitByNotEscapedCommas_join:
  "js_join '','' (splitByNotEscapedCommas s) = s"
  by (simp add: splitByNotEscapedCommas_def splitLoop_join)

section \<open>Properties of applyPseudoToMarker\<close>

lemma indexFrom_prefix: "indexFrom pat (pat @ xs) k = int k"
proof (cases "pat @ xs")
  case Nil
  then show ?thesis by simp
next
  case (Cons a list)
  have "take (length pat) (pat @ xs) = pat" by simp
  with Cons have "take (length pat) (a # list) = pat" by simp
  with Cons show ?thesis by (simp del: take_Suc_Cons)
qed

lemma indexOf_prefix: "indexOf (pat @ xs) pat 0 = 0"
  by (simp add: indexOf_def indexFrom_prefix)

lemma indexFrom_char:
  "c \<notin> set xs \<Longrightarrow> indexFrom [c] (xs @ c # ys) k = int (k + length xs)"
  by (induction xs arbitrary: k) auto

lemma indexOf_char:
  "c \<notin> set xs \<Longrightarrow> indexOf (xs @ c # ys) [c] 0 = int (length xs)"
  by (simp add: indexOf_def indexFrom_char)

lemma splitAcc_plain:
  "sep \<notin> set s \<Longrightarrow> splitAcc sep (s @ rest) cur = splitAcc sep rest (cur @ s)"
  by (induction s arbitrary: cur) auto

lemma splitAcc_join:
  "\<forall>s\<in>set (x # xs). sep \<notin> set s \<Longrightarrow>
   splitAcc sep (js_join [sep] (x # xs)) cur = (cur @ x) # xs"
proof (induction xs arbitrary: x cur)
  case Nil
  then show ?case using splitAcc_plain [of sep x "[]" cur] by simp
next
  case (Cons y ys)
  then have "splitAcc sep (js_join [sep] (y # ys)) [] = y # ys"
    by simp
  with Cons.prems show ?case
    using splitAcc_plain [of sep x "sep # js_join [sep] (y # ys)" cur] by simp
qed

lemma js_split_join:
  "xs \<noteq> [] \<Longrightarrow> \<forall>s\<in>set xs. sep \<notin> set s \<Longrightarrow> js_split (js_join [sep] xs) sep = xs"
  by (cases xs) (simp_all add: js_split_def splitAcc_join del: js_join.simps)

lemma set_js_join: "set (js_join sep xs) \<subseteq> set sep \<union> \<Union> (set ` set xs)"
  by (induction sep xs rule: js_join.induct) auto

lemma js_join_Cons: "xs \<noteq> [] \<Longrightarrow> js_join sep (x # xs) = x @ sep @ js_join sep xs"
  by (cases xs) simp_all

text \<open>
  C1, as amended. \<open>applyPseudoToMarker\<close> puts the new state in front of the states the
  marker already carries: for a selector that starts with the marker and its colon-joined
  states, followed by a space, the combined token is the marker, the new state, then the old
  states, and \<open>join\<close> receives it with the rest of the selector. So the order in which
  states are applied shows in the result.
\<close>

theorem applyPseudoToMarker_prepends:
  assumes sts: "sts \<noteq> []"
    and m: "CHR '' '' \<notin> set marker"
    and st: "\<forall>s\<in>set sts. CHR '':'' \<notin> set s \<and> CHR '' '' \<notin> set s"
  shows "applyPseudoToMarker (js_join '':'' (marker # sts) @ '' '' @ rest) marker state join
         = join (js_join '':'' (marker # state # sts)) ('' '' @ rest)"
proof -
  let ?tok = "js_join '':'' (marker # sts)"
  let ?sel = "?tok @ '' '' @ rest"
  have tok: "?tok = marker @ '':'' @ js_join '':'' sts"
    using sts by (simp add: js_join_Cons)
  have idx: "indexOf ?sel (marker @ '':'') 0 = 0"
    using indexOf_prefix [of "marker @ '':''" "js_join '':'' sts @ '' '' @ rest"]
    by (simp add: tok)
  have nosp: "CHR '' '' \<notin> set ?tok"
    using set_js_join [of "'':''" "marker # sts"] m st by auto
  have sp: "indexOf ?sel '' '' 0 = int (length ?tok)"
    using indexOf_char [OF nosp, of rest] by simp
  have ex: "js_slice ?sel 0 (int (length ?tok)) = ?tok"
    by (simp add: js_slice_def sliceIndex_def)
  have inner: "js_slice ?sel (0 + int (length marker) + 1) (int (length ?tok)) = js_join '':'' sts"
  proof -
    have n: "nat (int (length marker) + 1) = Suc (length marker)" by simp
    show ?thesis
      by (simp add: js_slice_def sliceIndex_def tok Let_def n nat_add_distrib)
  qed
  have spl: "js_split (js_join '':'' sts) CHR '':'' = sts"
    using js_split_join [OF sts, of "CHR '':''"] st by simp
  have rep: "js_replace ?sel ?tok [] = '' '' @ rest"
    using indexOf_prefix [of ?tok "'' '' @ rest"] by (simp add: js_replace_def)
  show ?thesis
    unfolding applyPseudoToMarker_def Let_def idx sp ex inner spl rep
    by simp
qed

theorem applyPseudoToMarker_prepends_witness:
  "applyPseudoToMarker ''.group:hover .group-focus:x'' ''.group'' ''focus'' groupJoin = ''.group:focus:hover  .group-focus:x''"
  using applyPseudoToMarker_prepends [of "[''hover'']" "''.group''" "''.group-focus:x''" "''focus''" groupJoin]
  by (simp add: groupJoin_def)

text \<open>
  C2, as amended. For a selector in which the marker followed by a colon does not occur,
  \<open>applyPseudoToMarker\<close> calls \<open>join\<close> with the synthesized token
  \<open>marker:state\<close> and the unchanged selector; it does not return the selector as it was.
\<close>

theorem applyPseudoToMarker_absent:
  "indexOf selector (marker @ '':'') 0 = - 1 \<Longrightarrow>
   applyPseudoToMarker selector marker state join = join (marker @ '':'' @ state) selector"
  by (simp add: applyPseudoToMarker_def)

theorem applyPseudoToMarker_absent_witness:
  "indexOf ''.foo'' (''.group'' @ '':'') 0 = - 1 \<and> applyPseudoToMarker ''.foo'' ''.group'' ''hover'' groupJoin = ''.group:hover .foo''"
  using applyPseudoToMarker_absent [of "''.foo''" "''.group''" "''hover''" groupJoin]
  by (simp add: groupJoin_def indexOf_def)

text \<open>
  Applying \<open>hover\<close> then \<open>focus\<close> to the marker \<open>.group\<close> and applying them in the other
  order give different selectors.
\<close>

theorem applyPseudoToMarker_order_counterexample:
  "applyPseudoToMarker (applyPseudoToMarker ''.foo'' ''.group'' ''hover'' groupJoin)
     ''.group'' ''focus'' groupJoin = ''.group:focus:hover  .foo'' \<and>
   applyPseudoToMarker (applyPseudoToMarker ''.foo'' ''.group'' ''focus'' groupJoin)
     ''.group'' ''hover'' groupJoin = ''.group:hover:focus  .foo'' \<and>
   applyPseudoToMarker (applyPseudoToMarker ''.foo'' ''.group'' ''hover'' groupJoin)
     ''.group'' ''focus'' groupJoin
   \<noteq> applyPseudoToMarker (applyPseudoToMarker ''.foo'' ''.group'' ''focus'' groupJoin)
     ''.group'' ''hover'' groupJoin"
  by code_simp

text \<open>
  The selector \<open>.foo\<close> has no marker class, and the result is not \<open>.foo\<close>.
\<close>

theorem applyPseudoToMarker_absent_counterexample:
  "indexOf ''.foo'' ''.group'' 0 = - 1 \<and>
   applyPseudoToMarker ''.foo'' ''.group'' ''hover'' groupJoin = ''.group:hover .foo'' \<and>
   applyPseudoToMarker ''.foo'' ''.group'' ''hover'' groupJoin \<noteq> ''.foo''"
  by code_simp

section \<open>Properties of value resolution\<close>

lemma supportedTypes_keys: "map fst (typeMapEntries dt w) = supportedTypes"
  by (simp add: typeMapEntries_def supportedTypes_def)

lemma js_get_own: "obj key = Some v \<Longrightarrow> js_get obj key = Some (Str v)"
  by (simp add: js_get_def)

lemma js_get_undefined:
  "obj key = None \<Longrightarrow> key \<notin> set objectPrototypeNames \<Longrightarrow> js_get obj key = None"
  by (simp add: js_get_def)

lemma slash_not_inherited: "CHR ''/'' \<in> set key \<Longrightarrow> key \<notin> set objectPrototypeNames"
  by (auto simp: objectPrototypeNames_def)

lemma bracket_not_inherited: "CHR ''['' # key \<notin> set objectPrototypeNames"
  by (simp add: objectPrototypeNames_def)

lemma typeMap_lookup_hit:
  assumes "ty \<in> set supportedTypes" and "vals modifier = Some v"
  shows "\<exists>resolve. typeMap dt w inh ty = Some resolve \<and> resolve modifier vals cfg = Inr (Some (Str v))"
  using assms
  by (auto simp: supportedTypes_def typeMap_def typeMapEntries_def guess_def asValue_def
      asColor_def asLookupValue_def js_get_def)

lemma indexFrom_absent: "c \<notin> set xs \<Longrightarrow> indexFrom [c] xs k = - 1"
  by (induction xs arbitrary: k) auto

lemma indexOf_absent: "c \<notin> set xs \<Longrightarrow> indexOf xs [c] 0 = - 1"
  by (simp add: indexOf_def indexFrom_absent)

lemma set_js_slice: "set (js_slice str a b) \<subseteq> set str"
  unfolding js_slice_def Let_def
  by (meson set_take_subset set_drop_subset subset_trans)

lemma splitAtFirst_absent: "c \<notin> set xs \<Longrightarrow> splitAtFirst xs [c] = (None, xs)"
  by (simp add: splitAtFirst_def indexOf_absent)

text \<open>
  C3, as amended. When the modifier is a key of the theme table with a non-empty value, is
  not a bracketed value with a colon inside, and the first kind of the caller's list is a
  supported kind, \<open>coerceValue\<close> returns the table's value verbatim, whatever the
  validators are, paired with that first kind of the caller's list (not with
  \<open>lookup\<close>).
\<close>

theorem coerceValue_lookup_hit:
  assumes hit: "vals modifier = Some v"
    and nonempty: "v \<noteq> []"
    and plain: "\<not> isArbitraryValue modifier \<or> CHR '':'' \<notin> set modifier"
    and ty: "ty \<in> set supportedTypes"
  shows "coerceValue dt w inh (ty # types) modifier vals cfg = Inr (Match (Some (Str v)) ty)"
proof -
  from typeMap_lookup_hit [of ty vals modifier v dt w inh cfg] ty hit
  obtain resolve
    where r: "typeMap dt w inh ty = Some resolve" "resolve modifier vals cfg = Inr (Some (Str v))"
    by blast
  with nonempty
  have loop: "firstMatchingType dt w inh (ty # types) modifier vals cfg = Inr (Match (Some (Str v)) ty)"
    by (simp add: truthy_def)
  show ?thesis
  proof (cases "isArbitraryValue modifier")
    case False
    with loop show ?thesis by (simp add: coerceValue_def)
  next
    case True
    with plain have "CHR '':'' \<notin> set modifier" by simp
    with set_js_slice [of modifier 1 "- 1"] have "CHR '':'' \<notin> set (js_slice modifier 1 (- 1))"
      by blast
    then have "splitAtFirst (js_slice modifier 1 (- 1)) '':'' = (None, js_slice modifier 1 (- 1))"
      by (rule splitAtFirst_absent)
    with True loop show ?thesis by (simp add: coerceValue_def)
  qed
qed

theorem coerceValue_lookup_hit_witness:
  "coerceValue sampleDataTypes sampleWithAlphaValue sampleInherited [''color''] ''red-500''
     [''red-500'' \<mapsto> ''#ef4444''] sampleConfig = Inr (Match (Some (Str ''#ef4444'')) ''color'')"
  using coerceValue_lookup_hit [of "[''red-500'' \<mapsto> ''#ef4444'']" "''red-500''" "''#ef4444''"
      "''color''" sampleDataTypes sampleWithAlphaValue sampleInherited "[]" sampleConfig]
  by (simp add: isArbitraryValue_def startsWith_def supportedTypes_def)

text \<open>
  The example of the claim: for the kinds \<open>[color]\<close> and the key \<open>red-500\<close> the label
  returned is \<open>color\<close>, not \<open>lookup\<close>.
\<close>

theorem coerceValue_lookup_label_counterexample:
  "coerceValue sampleDataTypes sampleWithAlphaValue sampleInherited [''color''] ''red-500''
     [''red-500'' \<mapsto> ''#ef4444''] sampleConfig = Inr (Match (Some (Str ''#ef4444'')) ''color'') \<and>
   coerceValue sampleDataTypes sampleWithAlphaValue sampleInherited [''color''] ''red-500''
     [''red-500'' \<mapsto> ''#ef4444''] sampleConfig \<noteq> Inr (Match (Some (Str ''#ef4444'')) ''lookup'')"
  by (simp add: coerceValue_def isArbitraryValue_def startsWith_def typeMap_def typeMapEntries_def
      asColor_def truthy_def js_get_def)

lemma isArbitraryValue_brackets: "isArbitraryValue (''['' @ x @ '']'')"
  by (simp add: isArbitraryValue_def startsWith_def endsWith_def)

lemma js_slice_brackets: "js_slice (''['' @ x @ '']'') 1 (- 1) = x"
  by (simp add: js_slice_def sliceIndex_def)

lemma nat_int_Suc: "nat (int n + 1) = Suc n"
  by simp

lemma splitAtFirst_colon:
  assumes "c \<notin> set p"
  shows "splitAtFirst (p @ c # rest) [c] = (Some p, rest)"
proof -
  have "indexOf (p @ c # rest) [c] 0 = int (length p)"
    using assms by (simp add: indexOf_def indexFrom_char)
  then show ?thesis
    by (simp add: splitAtFirst_def js_slice_def js_slice_from_def sliceIndex_def nat_int_Suc)
qed

lemma asValue_rewrapped:
  "asValue dt (CHR ''['' # rest @ '']'') vals validate =
     (case vals (CHR ''['' # rest @ '']'') of
        Some v \<Rightarrow> Some (Str v)
      | None \<Rightarrow>
          (case validate of
             None \<Rightarrow> Some (Str (normalize_dt dt rest))
           | Some accepts \<Rightarrow> if accepts rest then Some (Str (normalize_dt dt rest)) else None))"
  using isArbitraryValue_brackets [of rest] js_slice_brackets [of rest]
  by (simp add: asValue_def js_get_def bracket_not_inherited split: option.split)

text \<open>
  C8, as amended. For a bracketed modifier \<open>[p:rest]\<close> where \<open>p\<close> is the text before the
  first colon: when \<open>p\<close> is not a supported kind name, \<open>coerceValue\<close> returns the empty
  result whatever the caller's kind list is. When \<open>p\<close> is a supported kind name and \<open>rest\<close>
  is not empty, the result is paired with \<open>p\<close> and no kind validator is consulted; its
  value is the theme table's entry under the rewrapped \<open>[rest]\<close> when the table has that
  key, and otherwise \<open>rest\<close> normalized as a raw literal, unless the configuration carries a
  \<open>validate\<close> entry that refuses \<open>rest\<close>, in which case the value is \<open>undefined\<close>.
\<close>

theorem coerceValue_explicit_type:
  assumes "CHR '':'' \<notin> set p"
  shows "(p \<notin> set supportedTypes \<longrightarrow>
            coerceValue dt w inh types (''['' @ p @ '':'' @ rest @ '']'') vals cfg = Inr NoMatch) \<and>
         (p \<in> set supportedTypes \<and> rest \<noteq> [] \<longrightarrow>
            coerceValue dt w inh types (''['' @ p @ '':'' @ rest @ '']'') vals cfg
              = Inr (Match
                  (case vals (''['' @ rest @ '']'') of
                     Some v \<Rightarrow> Some (Str v)
                   | None \<Rightarrow>
                       (case validate_cfg cfg of
                          None \<Rightarrow> Some (Str (normalize_dt dt rest))
                        | Some accepts \<Rightarrow>
                            if accepts rest then Some (Str (normalize_dt dt rest)) else None))
                  p))"
proof -
  note arb = isArbitraryValue_brackets [of "p @ '':'' @ rest", simplified]
  note sl = js_slice_brackets [of "p @ '':'' @ rest", simplified]
  note sp = splitAtFirst_colon [OF assms, of rest]
  show ?thesis
    by (simp add: coerceValue_def arb sl sp asValue_rewrapped)
qed

theorem coerceValue_explicit_type_witness:
  "coerceValue sampleDataTypes sampleWithAlphaValue sampleInherited [''color'', ''length'']
     ''[foo:3px]'' Map.empty sampleConfig = Inr NoMatch \<and>
   coerceValue sampleDataTypes sampleWithAlphaValue sampleInherited [''color'', ''length'']
     ''[length:3px]'' Map.empty sampleConfig = Inr (Match (Some (Str ''3px'')) ''length'')"
  using coerceValue_explicit_type [of "''foo''" sampleDataTypes sampleWithAlphaValue sampleInherited
      "[''color'', ''length'']" "''3px''" Map.empty sampleConfig]
    coerceValue_explicit_type [of "''length''" sampleDataTypes sampleWithAlphaValue sampleInherited
      "[''color'', ''length'']" "''3px''" Map.empty sampleConfig]
  by (simp add: supportedTypes_def sampleDataTypes_def sampleConfig_def)

text \<open>
  With the key \<open>[3px]\<close> in the theme table, the modifier \<open>[length:3px]\<close> resolves to the
  table's entry, not to the normalized remainder \<open>3px\<close>; and with a \<open>validate\<close> entry in
  the configuration that refuses everything, it resolves to the pair of \<open>undefined\<close> and
  the kind.
\<close>

theorem coerceValue_explicit_type_counterexample:
  "coerceValue sampleDataTypes sampleWithAlphaValue sampleInherited [''color'']
     ''[length:3px]'' [''[3px]'' \<mapsto> ''LOOK''] sampleConfig
     = Inr (Match (Some (Str ''LOOK'')) ''length'') \<and>
   coerceValue sampleDataTypes sampleWithAlphaValue sampleInherited [''color'']
     ''[length:3px]'' [''[3px]'' \<mapsto> ''LOOK''] sampleConfig
     \<noteq> Inr (Match (Some (Str (normalize_dt sampleDataTypes ''3px''))) ''length'') \<and>
   coerceValue sampleDataTypes sampleWithAlphaValue sampleInherited [''color'']
     ''[length:3px]'' Map.empty (sampleConfig\<lparr>validate_cfg := Some (\<lambda>v. False)\<rparr>)
     = Inr (Match None ''length'')"
  by code_simp

lemma lastIndexFrom_absent: "c \<notin> set ys \<Longrightarrow> lastIndexFrom [c] ys k best = best"
  by (induction ys arbitrary: k) auto

lemma lastIndexFrom_last:
  "c \<notin> set ys \<Longrightarrow> lastIndexFrom [c] (xs @ c # ys) k best = int (k + length xs)"
  by (induction xs arbitrary: k best) (auto simp: lastIndexFrom_absent)

lemma lastIndexOf_last: "c \<notin> set ys \<Longrightarrow> lastIndexOf (xs @ c # ys) [c] = int (length xs)"
  by (simp add: lastIndexOf_def lastIndexFrom_last)

lemma splitAlpha_slash:
  assumes "CHR ''/'' \<notin> set a"
  shows "splitAlpha (c @ ''/'' @ a) = (if a = [] then (c @ ''/'', None) else (c, Some a))"
proof -
  have "lastIndexOf (c @ ''/'' @ a) ''/'' = int (length c)"
    using lastIndexOf_last [OF assms, of c] by simp
  then show ?thesis
    by (auto simp: splitAlpha_def js_slice_def js_slice_from_def sliceIndex_def nat_int_Suc)
qed

lemma not_arbitrary_slash: "\<not> isArbitraryValue (c @ ''/'')"
  by (simp add: isArbitraryValue_def endsWith_def)

text \<open>
  C9, as amended. For a modifier \<open>c/a\<close> that is not itself a key of the theme table, where
  \<open>a\<close> has no slash, \<open>c\<close> is a key of the table and \<open>a\<close> is not a bracketed value: when the
  theme's opacity scale gives \<open>undefined\<close> for \<open>a\<close>, \<open>asColor\<close> returns \<open>undefined\<close>, never
  the opaque base colour; when \<open>a\<close> is a key of the scale, the result is \<open>withAlphaValue\<close>
  of the base colour and the scale's value under that key.
\<close>

theorem asColor_alpha:
  assumes slash: "CHR ''/'' \<notin> set a"
    and miss: "lookup (c @ ''/'' @ a) = None"
    and base: "lookup c = Some v"
    and plain: "\<not> isArbitraryValue a"
  shows "(themeOpacity cfg a = None \<longrightarrow> asColor dt w (c @ ''/'' @ a) lookup cfg = Inr None) \<and>
         (\<forall>opa. a \<noteq> [] \<and> themeOpacity cfg a = Some (Str opa) \<longrightarrow>
            asColor dt w (c @ ''/'' @ a) lookup cfg = Inr (w (Str v) (Str opa)))"
proof -
  have m: "js_get lookup (c @ ''/'' @ a) = None"
    using miss by (intro js_get_undefined slash_not_inherited) simp_all
  have b: "js_get lookup c = Some (Str v)"
    using base by (rule js_get_own)
  show ?thesis
  proof (cases "a = []")
    case True
    with m have "asValue dt (c @ ''/'') lookup (Some (validateColor dt)) = None"
      using not_arbitrary_slash [of c] by (simp add: asValue_def)
    with True m show ?thesis
      using splitAlpha_slash [OF slash, of c] by (simp add: asColor_def)
  next
    case False
    with splitAlpha_slash [OF slash, of c] have "splitAlpha (c @ ''/'' @ a) = (c, Some a)"
      by simp
    with m b plain show ?thesis
      by (simp add: asColor_def)
  qed
qed

theorem asColor_alpha_witness:
  "asColor sampleDataTypes sampleWithAlphaValue ''red-500/55'' [''red-500'' \<mapsto> ''rgb(239 68 68)'']
     sampleConfig = Inr None \<and>
   asColor sampleDataTypes sampleWithAlphaValue ''red-500/50'' [''red-500'' \<mapsto> ''rgb(239 68 68)'']
     sampleConfig = Inr (sampleWithAlphaValue (Str ''rgb(239 68 68)'') (Str ''0.5''))"
  using asColor_alpha [of "''55''" "[''red-500'' \<mapsto> ''rgb(239 68 68)'']" "''red-500''"
      "''rgb(239 68 68)''" sampleConfig sampleDataTypes sampleWithAlphaValue]
    asColor_alpha [of "''50''" "[''red-500'' \<mapsto> ''rgb(239 68 68)'']" "''red-500''"
      "''rgb(239 68 68)''" sampleConfig sampleDataTypes sampleWithAlphaValue]
  by (simp add: isArbitraryValue_def startsWith_def themeOpacity_def sampleConfig_def js_get_def
      objectPrototypeNames_def)

text \<open>
  With the key \<open>red-500/55\<close> in the theme table beside \<open>red-500\<close>, and \<open>55\<close> neither
  bracketed nor a key of the opacity scale, \<open>asColor\<close> returns the table's entry for the
  whole modifier, not \<open>undefined\<close>.
\<close>

theorem asColor_alpha_counterexample:
  "themeOpacity sampleConfig ''55'' = None \<and>
   asColor sampleDataTypes sampleWithAlphaValue ''red-500/55''
     [''red-500'' \<mapsto> ''rgb(239 68 68)'', ''red-500/55'' \<mapsto> ''#abc''] sampleConfig
     = Inr (Some (Str ''#abc'')) \<and>
   asColor sampleDataTypes sampleWithAlphaValue ''red-500/55''
     [''red-500'' \<mapsto> ''rgb(239 68 68)'', ''red-500/55'' \<mapsto> ''#abc''] sampleConfig \<noteq> Inr None"
  by (simp add: asColor_def js_get_def themeOpacity_def sampleConfig_def objectPrototypeNames_def)

text \<open>
  A name that the opacity scale inherits, such as \<open>constructor\<close>, is not \<open>undefined\<close> in
  the scale: the test of the source does not fire, and \<open>withAlphaValue\<close> is called with the
  inherited member.
\<close>

lemma asColor_inherited_alpha:
  "asColor dt w ''red-500/constructor'' [''red-500'' \<mapsto> ''rgb(239 68 68)''] sampleConfig
     = Inr (w (Str ''rgb(239 68 68)'') (Foreign ''constructor''))"
  by (simp add: asColor_def js_get_def themeOpacity_def sampleConfig_def objectPrototypeNames_def
      splitAlpha_def lastIndexOf_def js_slice_def js_slice_from_def sliceIndex_def
      isArbitraryValue_def startsWith_def)

section \<open>Properties of the selector rewrites\<close>

lemma countClasses_append: "countClasses (xs @ ys) = countClasses xs + countClasses ys"
  by (induction xs rule: countClasses.induct) simp_all

lemma countClasses_pseudos: "countClasses (map (\<lambda>pseudo. Pseudo pseudo []) ps) = 0"
  by (induction ps) simp_all

lemma countClasses_rewriteClass: "countClasses (rewriteClass setRaws esc updateClass v r) = 1"
  by (simp add: rewriteClass_def Let_def countClasses_pseudos split: prod.split)

lemma countClasses_walkClasses:
  "(\<And>v r. countClasses (visit v r) = 1) \<Longrightarrow> countClasses (walkClasses visit ns) = countClasses ns"
proof (induction visit ns rule: walkClasses.induct)
  case (3 visit v sels ns)
  have "map (countClasses \<circ> walkClasses visit) sels = map countClasses sels"
    using "3.IH"(1) "3.prems" by (intro map_cong) simp_all
  then have "sum_list (map (countClasses \<circ> walkClasses visit) sels) = sum_list (map countClasses sels)"
    by (simp only:)
  moreover have "countClasses (walkClasses visit ns) = countClasses ns"
    using "3.IH"(2) "3.prems" by simp
  ultimately show ?case by simp
qed (simp_all add: countClasses_append)

text \<open>
  C4. \<open>updateAllClasses\<close> preserves the number of class nodes, for every root and every
  rewrite callback: each class node is replaced by one class node, and what \<open>withPseudo\<close>
  inserts are pseudo nodes.
\<close>

theorem updateAllClasses_class_count:
  "classCount (updateAllClassesAst setRaws escapeCommas updateClass root) = classCount root"
proof -
  have "map (countClasses \<circ> walkClasses (rewriteClass setRaws escapeCommas updateClass)) root
        = map countClasses root"
    by (intro map_cong) (simp_all add: countClasses_walkClasses countClasses_rewriteClass)
  then have "sum_list (map (countClasses \<circ> walkClasses (rewriteClass setRaws escapeCommas updateClass)) root)
        = sum_list (map countClasses root)"
    by (simp only:)
  then show ?thesis
    by (simp add: classCount_def updateAllClassesAst_def)
qed

lemma filter_enumerate_none:
  "filter isClass post = [] \<Longrightarrow> filter (\<lambda>(i, n). isClass n) (enumerate k post) = []"
  by (induction post arbitrary: k) (auto split: if_splits)

lemma filter_enumerate_some:
  "filter isClass sel = [] \<longleftrightarrow> filter (\<lambda>(i, n). isClass n) (enumerate k sel) = []"
  by (induction sel arbitrary: k) auto

lemma lastClass_none: "filter isClass sel = [] \<Longrightarrow> lastClass sel = None"
  using filter_enumerate_some [of sel 0] by (simp add: lastClass_def)

lemma lastClass_decomp:
  assumes "filter isClass post = []"
  shows "lastClass (pre @ ClassName v r # post) = Some (length pre, ClassName v r)"
proof -
  have "filter (\<lambda>(i, n). isClass n) (enumerate 0 (pre @ ClassName v r # post))
        = filter (\<lambda>(i, n). isClass n) (enumerate 0 pre) @ [(length pre, ClassName v r)]"
    using filter_enumerate_none [OF assms] by (simp add: enumerate_append_eq)
  moreover have "last (c # cs) = (length pre, ClassName v r)"
    if "xs @ [(length pre, ClassName v r)] = c # cs" for xs c cs
    using that by (metis last_snoc)
  ultimately show ?thesis
    by (auto simp: lastClass_def split: list.split)
qed

lemma last_class_split:
  assumes "filter isClass sel \<noteq> []"
  shows "\<exists>pre v r post. sel = pre @ ClassName v r # post \<and> filter isClass post = []"
proof -
  from assms have "\<exists>n\<in>set sel. isClass n"
    by (simp add: filter_empty_conv)
  from split_list_last_prop [OF this]
  obtain pre n post where s: "sel = pre @ n # post" "isClass n" "\<forall>z\<in>set post. \<not> isClass z"
    by blast
  from s(2) obtain v r where "n = ClassName v r"
    by (cases n) simp_all
  with s show ?thesis
    by (auto simp: filter_empty_conv)
qed

lemma filter_rewriteClass:
  "filter isClass (rewriteClass setRaws esc updateClass v r) = [hd (rewriteClass setRaws esc updateClass v r)]"
  by (simp add: rewriteClass_def Let_def filter_empty_conv split: prod.split)

text \<open>
  C5. In every selector of the root, \<open>updateLastClasses\<close> changes at most one class node:
  a selector with no class node among its children is returned unchanged, and otherwise only
  the last such class node is handed to the callback; the nodes before it and after it stay,
  and so do all class nodes but the last.
\<close>

theorem updateLastClasses_last_only:
  assumes "i < length root"
  shows "length (updateLastClassesAst setRaws escapeCommas updateClass root) = length root \<and>
     butlast (filter isClass (updateLastClassesAst setRaws escapeCommas updateClass root ! i))
       = butlast (filter isClass (root ! i)) \<and>
     (filter isClass (root ! i) = [] \<longrightarrow>
        updateLastClassesAst setRaws escapeCommas updateClass root ! i = root ! i) \<and>
     (filter isClass (root ! i) \<noteq> [] \<longrightarrow>
        (\<exists>pre v r post.
           root ! i = pre @ ClassName v r # post \<and> filter isClass post = [] \<and>
           updateLastClassesAst setRaws escapeCommas updateClass root ! i
             = pre @ rewriteClass setRaws escapeCommas updateClass v r @ post))"
proof -
  let ?up = "updateLastClass setRaws escapeCommas updateClass"
  have out: "updateLastClassesAst setRaws escapeCommas updateClass root ! i = ?up (root ! i)"
    using assms by (simp add: updateLastClassesAst_def)
  have none: "filter isClass sel = [] \<Longrightarrow> ?up sel = sel" for sel
    by (simp add: updateLastClass_def lastClass_none)
  have some: "\<exists>pre v r post. sel = pre @ ClassName v r # post \<and> filter isClass post = [] \<and>
      ?up sel = pre @ rewriteClass setRaws escapeCommas updateClass v r @ post"
    if "filter isClass sel \<noteq> []" for sel
  proof -
    from last_class_split [OF that] obtain pre v r post
      where s: "sel = pre @ ClassName v r # post" "filter isClass post = []"
      by blast
    then have "?up sel = pre @ rewriteClass setRaws escapeCommas updateClass v r @ post"
      by (simp add: updateLastClass_def lastClass_decomp)
    with s show ?thesis by blast
  qed
  have but: "butlast (filter isClass (?up sel)) = butlast (filter isClass sel)" for sel
  proof (cases "filter isClass sel = []")
    case True
    then show ?thesis by (simp add: none)
  next
    case False
    from some [OF False] obtain pre v r post
      where s: "sel = pre @ ClassName v r # post" "filter isClass post = []"
        "?up sel = pre @ rewriteClass setRaws escapeCommas updateClass v r @ post"
      by blast
    then show ?thesis
      by (simp add: filter_rewriteClass butlast_append)
  qed
  show ?thesis
    unfolding out using none some but by (simp add: updateLastClassesAst_def)
qed

theorem updateLastClasses_last_only_witness:
  "updateLastClassesAst sampleSetRaws sampleEscapeCommas sampleUpdateClass sampleRoot ! 0
     = [Simple ''tag'' ''div''] \<and>
   (\<exists>pre v r post.
      sampleRoot ! 1 = pre @ ClassName v r # post \<and> filter isClass post = [] \<and>
      updateLastClassesAst sampleSetRaws sampleEscapeCommas sampleUpdateClass sampleRoot ! 1
        = pre @ rewriteClass sampleSetRaws sampleEscapeCommas sampleUpdateClass v r @ post) \<and>
   updateLastClassesAst sampleSetRaws sampleEscapeCommas sampleUpdateClass sampleRoot ! 1
     = [ClassName ''a'' None, Simple ''combinator'' '' '', ClassName ''hover:b'' None,
        Pseudo '':hover'' [], Simple ''attribute'' ''[x]'']"
proof -
  have e: "updateLastClassesAst sampleSetRaws sampleEscapeCommas sampleUpdateClass sampleRoot ! 1
     = [ClassName ''a'' None, Simple ''combinator'' '' '', ClassName ''hover:b'' None,
        Pseudo '':hover'' [], Simple ''attribute'' ''[x]'']"
    by code_simp
  from updateLastClasses_last_only [of 0 sampleRoot sampleSetRaws sampleEscapeCommas sampleUpdateClass]
    updateLastClasses_last_only [of 1 sampleRoot sampleSetRaws sampleEscapeCommas sampleUpdateClass] e
  show ?thesis
    by (simp add: sampleRoot_def)
qed

section \<open>Properties of transformAllSelectors\<close>

lemma transformRule_no_hook:
  "transformRule T None isK ps sel kids =
     ((if isK ps sel kids then sel else transformSelector_text T sel, kids), [])"
  by (simp add: transformRule_def)

lemma walkRules_no_hook:
  "depthNodes ns \<le> fuel \<Longrightarrow>
   walkRules fuel (transformRule T None isK) ps ns = Some (spec_rewriteRules T isK ps ns, [])"
proof (induction fuel "transformRule T None isK" ps ns rule: walkRules.induct)
  case (5 fuel parents sel kids ns)
  let ?sel = "if isK parents sel kids then sel else transformSelector_text T sel"
  have cb: "transformRule T None isK parents sel kids = ((?sel, kids), [])"
    by (rule transformRule_no_hook)
  from "5.prems" have d: "depthNodes kids \<le> fuel" "depthNodes ns \<le> Suc fuel"
    by simp_all
  from "5.hyps"(1) [OF cb [symmetric] refl d(1)]
  have k: "walkRules fuel (transformRule T None isK) (RuleParent ?sel # parents) kids
      = Some (spec_rewriteRules T isK (RuleParent ?sel # parents) kids, [])" .
  from "5.hyps"(2) [OF cb [symmetric] refl k refl d(2)]
  have n: "walkRules (Suc fuel) (transformRule T None isK) parents ns
      = Some (spec_rewriteRules T isK parents ns, [])" .
  show ?case
    by (simp add: cb k n Let_def)
qed auto

lemma walkRules_returns:
  "(\<And>ps sel kids. depthNodes (snd (fst (callback ps sel kids))) \<le> depthNodes kids) \<Longrightarrow>
   depthNodes ns \<le> fuel \<Longrightarrow>
   \<exists>ns' es. walkRules fuel callback parents ns = Some (ns', es)"
proof (induction fuel callback parents ns rule: walkRules.induct)
  case (5 fuel callback parents sel kids ns)
  note cb = "5.prems"(1)
  obtain sel' kids' es1 where c: "callback parents sel kids = ((sel', kids'), es1)"
    by (metis surj_pair)
  from cb [of parents sel kids] c have "depthNodes kids' \<le> depthNodes kids"
    by simp
  with "5.prems"(2) have d: "depthNodes kids' \<le> fuel" "depthNodes ns \<le> Suc fuel"
    by simp_all
  from "5.IH"(1) [OF c [symmetric] refl cb d(1)]
  obtain kids'' es2 where k: "walkRules fuel callback (RuleParent sel' # parents) kids' = Some (kids'', es2)"
    by blast
  from "5.IH"(2) [OF c [symmetric] refl k refl cb d(2)]
  obtain ns' es3 where n: "walkRules (Suc fuel) callback parents ns = Some (ns', es3)"
    by blast
  show ?case
    by (simp add: c k n)
next
  case (7 fuel callback parents name params kids ns)
  note cb = "7.prems"(1)
  from "7.prems"(2) have d: "depthNodes kids \<le> fuel" "depthNodes ns \<le> Suc fuel"
    by simp_all
  from "7.IH"(1) [OF cb d(1)]
  obtain kids' es1 where k: "walkRules fuel callback (AtRuleParent name params # parents) kids = Some (kids', es1)"
    by blast
  from "7.IH"(2) [OF k refl cb d(2)]
  obtain ns' es2 where n: "walkRules (Suc fuel) callback parents ns = Some (ns', es2)"
    by blast
  show ?case
    by (simp add: k n)
qed auto

lemma walkRules_children:
  "walkRules fuel callback parents ns = Some (ns', es) \<Longrightarrow> list_all2 sameKind ns ns'"
  by (induction fuel callback parents ns arbitrary: ns' es rule: walkRules.induct)
    (auto split: option.splits prod.splits)

lemma walkRules_calls:
  "(\<And>ps sel kids e. e \<in> set (snd (callback ps sel kids)) \<Longrightarrow> P e) \<Longrightarrow>
   walkRules fuel callback parents ns = Some (ns', es) \<Longrightarrow> e \<in> set es \<Longrightarrow> P e"
proof (induction fuel callback parents ns arbitrary: ns' es rule: walkRules.induct)
  case (5 fuel callback parents sel kids ns)
  note cb = "5.prems"(1)
  obtain sel' kids' es1 where c: "callback parents sel kids = ((sel', kids'), es1)"
    by (metis surj_pair)
  from "5.prems"(2) c obtain kids'' es2 nsr es3
    where k: "walkRules fuel callback (RuleParent sel' # parents) kids' = Some (kids'', es2)"
      and n: "walkRules (Suc fuel) callback parents ns = Some (nsr, es3)"
      and es: "es = es1 @ es2 @ es3"
    by (auto split: option.splits)
  from "5.prems"(3) es consider "e \<in> set es1" | "e \<in> set es2" | "e \<in> set es3"
    by auto
  then show ?case
  proof cases
    case 1
    with cb [of e parents sel kids] c show ?thesis by simp
  next
    case 2
    from "5.IH"(1) [OF c [symmetric] refl cb k 2] show ?thesis .
  next
    case 3
    from "5.IH"(2) [OF c [symmetric] refl k refl cb n 3] show ?thesis .
  qed
qed (auto split: option.splits)

lemma transformRule_depth:
  "hookKeepsDepth withRule \<Longrightarrow>
   depthNodes (snd (fst (transformRule T withRule isK ps sel kids))) \<le> depthNodes kids"
  by (cases withRule) (simp_all add: transformRule_def Let_def hookKeepsDepth_def)

text \<open>
  C6. With a \<open>wrap\<close> option, for a hook that does not nest rules deeper and fuel for the
  depth of the container: the transform returns, the container ends with exactly one child,
  the at-rule of \<open>wrap\<close>, and the children of that at-rule are its own followed by the
  nodes that the same transform without \<open>wrap\<close> leaves in the container, which are the
  former children of the container, one for one and in order, after all rewrites.
\<close>

theorem transformAllSelectors_wrap:
  assumes hook: "hookKeepsDepth withRule"
    and fuel: "depthNodes container \<le> fuel"
  shows "\<exists>nodes calls.
           transformAllSelectors T None withRule isK fuel container = Some (nodes, calls) \<and>
           list_all2 sameKind container nodes \<and>
           transformAllSelectors T (Some (name, params, wrapperNodes)) withRule isK fuel container
             = Some ([AtRule name params (wrapperNodes @ nodes)], calls)"
proof -
  from walkRules_returns [of "transformRule T withRule isK" container fuel "[]"]
    transformRule_depth [OF hook, of T isK] fuel
  obtain nodes calls
    where w: "walkRules fuel (transformRule T withRule isK) [] container = Some (nodes, calls)"
    by blast
  from walkRules_children [OF w] have "list_all2 sameKind container nodes" .
  with w show ?thesis
    by (simp add: transformAllSelectors_def)
qed

theorem transformAllSelectors_wrap_witness:
  "transformAllSelectors sampleTransform (Some (''media'', ''print'', [])) (Some contentHook)
     sampleIsKeyframeRule 2 sampleContainer
   = Some ([AtRule ''media'' ''print''
             [Rule ''.a:hover,.b:hover'' [Decl ''content'' [CHR 0x22, CHR 0x22], Decl ''color'' ''red''],
              AtRule ''keyframes'' ''spin'' [Rule ''from, to'' [Decl ''opacity'' ''1'']]]],
           [HookCall [] ''.a,.b'' ''.a:hover,.b:hover'' [Decl ''color'' ''red'']])"
proof -
  have h: "hookKeepsDepth (Some contentHook)"
    by (simp add: hookKeepsDepth_def contentHook_def)
  have f: "depthNodes sampleContainer \<le> 2"
    by (simp add: sampleContainer_def)
  have e: "transformAllSelectors sampleTransform None (Some contentHook) sampleIsKeyframeRule 2 sampleContainer
    = Some ([Rule ''.a:hover,.b:hover'' [Decl ''content'' [CHR 0x22, CHR 0x22], Decl ''color'' ''red''],
              AtRule ''keyframes'' ''spin'' [Rule ''from, to'' [Decl ''opacity'' ''1'']]],
           [HookCall [] ''.a,.b'' ''.a:hover,.b:hover'' [Decl ''color'' ''red'']])"
    by code_simp
  from transformAllSelectors_wrap [OF h f, of sampleTransform
      sampleIsKeyframeRule "''media''" "''print''" "[]"] e
  show ?thesis
    by simp
qed

lemma transformRule_calls:
  "HookCall ps sel t ns \<in> set (snd (transformRule T withRule isK parents selector nodes)) \<Longrightarrow>
   \<not> isK ps sel ns \<and> t = transformSelector_text T sel"
  by (cases withRule) (auto simp: transformRule_def Let_def split: if_splits)

lemma transformRule_calls_all:
  "e \<in> set (snd (transformRule T withRule isK parents selector nodes)) \<Longrightarrow>
   (case e of HookCall ps sel t ns \<Rightarrow> \<not> isK ps sel ns \<and> t = transformSelector_text T sel)"
  using transformRule_calls [of _ _ _ _ T withRule isK parents selector nodes]
  by (cases e) simp

text \<open>
  C7, as amended. On a keyframe rule the callback of \<open>transformAllSelectors\<close> leaves the
  rule as it is and calls no hook. On any other rule the selector becomes the comma-join of
  the transformed chunks of \<open>splitByNotEscapedCommas\<close>, and the hook, when there is one, is
  called once on the rule with that selector. The chunks are cut at the commas that do not
  stand right after a backslash, wherever they are: joined with commas they give the
  selector back, every comma left inside a chunk stands right after a backslash, and no
  chunk before a cut ends with a backslash; and any list of chunks with these properties is
  the split of its comma-join. For the whole container: with no hook and fuel
  for its depth the walk returns the tree in which exactly the rules that are not keyframe
  rules, each tested with its own ancestors, carry the rewritten selector; every call of a
  hook is on a rule that, with its own ancestors, is not a keyframe rule, and passes the
  rewritten selector; and with a hook that does not nest rules deeper the transform returns.
\<close>

theorem transformAllSelectors_rules:
  "(isKeyframeRule parents sel kids \<longrightarrow>
      transformRule T withRule isKeyframeRule parents sel kids = ((sel, kids), [])) \<and>
   (\<not> isKeyframeRule parents sel kids \<longrightarrow>
      transformRule T withRule isKeyframeRule parents sel kids =
        (let transformed =
               js_join '','' (map (\<lambda>piece. js_str (T piece)) (splitByNotEscapedCommas sel))
         in case withRule of
              None \<Rightarrow> ((transformed, kids), [])
            | Some hook \<Rightarrow> (hook transformed kids, [HookCall parents sel transformed kids]))) \<and>
   (js_join '','' (splitByNotEscapedCommas sel) = sel \<and>
    (\<forall>chunk\<in>set (splitByNotEscapedCommas sel). escapedCommasOnly chunk) \<and>
    (\<forall>chunk\<in>set (butlast (splitByNotEscapedCommas sel)). \<not> endsWith chunk [CHR 0x5C])) \<and>
   (chunks \<noteq> [] \<and> (\<forall>chunk\<in>set chunks. escapedCommasOnly chunk) \<and>
    (\<forall>chunk\<in>set (butlast chunks). \<not> endsWith chunk [CHR 0x5C]) \<longrightarrow>
      splitByNotEscapedCommas (js_join '','' chunks) = chunks) \<and>
   (depthNodes container \<le> fuel \<longrightarrow>
      transformAllSelectors T None None isKeyframeRule fuel container
        = Some (spec_rewriteRules T isKeyframeRule [] container, [])) \<and>
   (transformAllSelectors T wrap withRule isKeyframeRule fuel container = Some (out, calls) \<and>
      HookCall ps s t ns \<in> set calls \<longrightarrow>
      \<not> isKeyframeRule ps s ns \<and> t = transformSelector_text T s) \<and>
   (hookKeepsDepth withRule \<and> depthNodes container \<le> fuel \<longrightarrow>
      (\<exists>result. transformAllSelectors T wrap withRule isKeyframeRule fuel container = Some result))"
proof (intro conjI impI)
  assume "isKeyframeRule parents sel kids"
  then show "transformRule T withRule isKeyframeRule parents sel kids = ((sel, kids), [])"
    by (simp add: transformRule_def)
next
  assume "\<not> isKeyframeRule parents sel kids"
  then show "transformRule T withRule isKeyframeRule parents sel kids =
        (let transformed =
               js_join '','' (map (\<lambda>piece. js_str (T piece)) (splitByNotEscapedCommas sel))
         in case withRule of
              None \<Rightarrow> ((transformed, kids), [])
            | Some hook \<Rightarrow> (hook transformed kids, [HookCall parents sel transformed kids]))"
    by (simp add: transformRule_def transformSelector_text_def)
next
  show "js_join '','' (splitByNotEscapedCommas sel) = sel"
    using splitByNotEscapedCommas_cuts [of sel] by blast
next
  show "\<forall>chunk\<in>set (splitByNotEscapedCommas sel). escapedCommasOnly chunk"
    using splitByNotEscapedCommas_cuts [of sel] by blast
next
  show "\<forall>chunk\<in>set (butlast (splitByNotEscapedCommas sel)). \<not> endsWith chunk [CHR 0x5C]"
    using splitByNotEscapedCommas_cuts [of sel] by blast
next
  assume "chunks \<noteq> [] \<and> (\<forall>chunk\<in>set chunks. escapedCommasOnly chunk) \<and>
    (\<forall>chunk\<in>set (butlast chunks). \<not> endsWith chunk [CHR 0x5C])"
  then show "splitByNotEscapedCommas (js_join '','' chunks) = chunks"
    by (simp add: splitByNotEscapedCommas_unique)
next
  assume "depthNodes container \<le> fuel"
  then show "transformAllSelectors T None None isKeyframeRule fuel container
        = Some (spec_rewriteRules T isKeyframeRule [] container, [])"
    by (simp add: transformAllSelectors_def walkRules_no_hook)
next
  assume a: "transformAllSelectors T wrap withRule isKeyframeRule fuel container = Some (out, calls) \<and>
      HookCall ps s t ns \<in> set calls"
  then obtain nodes where w:
    "walkRules fuel (transformRule T withRule isKeyframeRule) [] container = Some (nodes, calls)"
    by (auto simp: transformAllSelectors_def split: option.splits)
  from a have m: "HookCall ps s t ns \<in> set calls" by simp
  have "case HookCall ps s t ns of HookCall ps' s' t' ns' \<Rightarrow>
      \<not> isKeyframeRule ps' s' ns' \<and> t' = transformSelector_text T s'"
    by (rule walkRules_calls [OF _ w m]) (rule transformRule_calls_all)
  then show "\<not> isKeyframeRule ps s ns" and "t = transformSelector_text T s"
    by simp_all
next
  assume a: "hookKeepsDepth withRule \<and> depthNodes container \<le> fuel"
  from walkRules_returns [of "transformRule T withRule isKeyframeRule" container fuel "[]"]
    transformRule_depth [of withRule T isKeyframeRule] a
  obtain nodes calls'
    where "walkRules fuel (transformRule T withRule isKeyframeRule) [] container = Some (nodes, calls')"
    by blast
  then show "\<exists>result. transformAllSelectors T wrap withRule isKeyframeRule fuel container = Some result"
    by (cases wrap) (auto simp: transformAllSelectors_def)
qed

theorem transformAllSelectors_rules_witness:
  "transformRule sampleTransform (Some contentHook) sampleIsKeyframeRule
     [AtRuleParent ''keyframes'' ''spin''] ''from, to'' [Decl ''opacity'' ''1'']
     = ((''from, to'', [Decl ''opacity'' ''1'']), []) \<and>
   transformRule sampleTransform (Some contentHook) sampleIsKeyframeRule
     [] ''.a,.b'' [Decl ''color'' ''red'']
     = ((''.a:hover,.b:hover'', [Decl ''content'' [CHR 0x22, CHR 0x22], Decl ''color'' ''red'']),
        [HookCall [] ''.a,.b'' ''.a:hover,.b:hover'' [Decl ''color'' ''red'']]) \<and>
   transformAllSelectors sampleTransform None None sampleIsKeyframeRule 2 sampleContainer
     = Some ([Rule ''.a:hover,.b:hover'' [Decl ''color'' ''red''],
              AtRule ''keyframes'' ''spin'' [Rule ''from, to'' [Decl ''opacity'' ''1'']]], []) \<and>
   \<not> sampleIsKeyframeRule [] ''.a,.b'' [Decl ''color'' ''red''] \<and>
   ''.a:hover,.b:hover'' = transformSelector_text sampleTransform ''.a,.b'' \<and>
   splitByNotEscapedCommas (js_join '','' [''.a'', ''.b'']) = [''.a'', ''.b''] \<and>
   (\<exists>result. transformAllSelectors sampleTransform None (Some contentHook) sampleIsKeyframeRule
      2 sampleContainer = Some result)"
proof -
  have h: "hookKeepsDepth (Some contentHook)"
    by (simp add: hookKeepsDepth_def contentHook_def)
  have k: "sampleIsKeyframeRule [AtRuleParent ''keyframes'' ''spin''] ''from, to'' [Decl ''opacity'' ''1'']"
    by (simp add: sampleIsKeyframeRule_def endsWith_def)
  have n: "\<not> sampleIsKeyframeRule [] ''.a,.b'' [Decl ''color'' ''red'']"
    by (simp add: sampleIsKeyframeRule_def)
  have f: "depthNodes sampleContainer \<le> 2"
    by (simp add: sampleContainer_def)
  have j: "js_join '','' (map (\<lambda>piece. js_str (sampleTransform piece)) (splitByNotEscapedCommas ''.a,.b''))
      = ''.a:hover,.b:hover''"
    by code_simp
  have r: "spec_rewriteRules sampleTransform sampleIsKeyframeRule [] sampleContainer
      = [Rule ''.a:hover,.b:hover'' [Decl ''color'' ''red''],
         AtRule ''keyframes'' ''spin'' [Rule ''from, to'' [Decl ''opacity'' ''1'']]]"
    by code_simp
  have e: "transformAllSelectors sampleTransform None (Some contentHook) sampleIsKeyframeRule 2 sampleContainer
    = Some ([Rule ''.a:hover,.b:hover'' [Decl ''content'' [CHR 0x22, CHR 0x22], Decl ''color'' ''red''],
              AtRule ''keyframes'' ''spin'' [Rule ''from, to'' [Decl ''opacity'' ''1'']]],
           [HookCall [] ''.a,.b'' ''.a:hover,.b:hover'' [Decl ''color'' ''red'']])"
    by code_simp
  note t1 = transformAllSelectors_rules [of sampleIsKeyframeRule "[AtRuleParent ''keyframes'' ''spin'']"
      "''from, to''" "[Decl ''opacity'' ''1'']" sampleTransform "Some contentHook" "[''.a'', ''.b'']"
      sampleContainer 2
      None "[Rule ''.a:hover,.b:hover'' [Decl ''content'' [CHR 0x22, CHR 0x22], Decl ''color'' ''red''],
              AtRule ''keyframes'' ''spin'' [Rule ''from, to'' [Decl ''opacity'' ''1'']]]"
      "[HookCall [] ''.a,.b'' ''.a:hover,.b:hover'' [Decl ''color'' ''red'']]"
      "[]" "''.a,.b''" "''.a:hover,.b:hover''" "[Decl ''color'' ''red'']"]
  note t2 = transformAllSelectors_rules [of sampleIsKeyframeRule "[]"
      "''.a,.b''" "[Decl ''color'' ''red'']" sampleTransform "Some contentHook" "[]" sampleContainer 2
      None "[]" "[]" "[]" "[]" "[]" "[]"]
  have u1: "escapedCommasOnly ''.a''" and u2: "escapedCommasOnly ''.b''"
    by (simp_all add: escapedCommasOnly_no_comma)
  from t1 u1 u2 have u: "splitByNotEscapedCommas (js_join '','' [''.a'', ''.b'']) = [''.a'', ''.b'']"
    by (simp add: endsWith_def)
  from t1 h f have g: "\<exists>result. transformAllSelectors sampleTransform None (Some contentHook)
      sampleIsKeyframeRule 2 sampleContainer = Some result"
    by blast
  from t1 k f r e have a: "transformRule sampleTransform (Some contentHook) sampleIsKeyframeRule
     [AtRuleParent ''keyframes'' ''spin''] ''from, to'' [Decl ''opacity'' ''1'']
     = ((''from, to'', [Decl ''opacity'' ''1'']), [])"
    and c: "transformAllSelectors sampleTransform None None sampleIsKeyframeRule 2 sampleContainer
     = Some ([Rule ''.a:hover,.b:hover'' [Decl ''color'' ''red''],
              AtRule ''keyframes'' ''spin'' [Rule ''from, to'' [Decl ''opacity'' ''1'']]], [])"
    and d: "\<not> sampleIsKeyframeRule [] ''.a,.b'' [Decl ''color'' ''red''] \<and>
      ''.a:hover,.b:hover'' = transformSelector_text sampleTransform ''.a,.b''"
    by simp_all
  from t2 n j have b: "transformRule sampleTransform (Some contentHook) sampleIsKeyframeRule
     [] ''.a,.b'' [Decl ''color'' ''red'']
     = ((''.a:hover,.b:hover'', [Decl ''content'' [CHR 0x22, CHR 0x22], Decl ''color'' ''red'']),
        [HookCall [] ''.a,.b'' ''.a:hover,.b:hover'' [Decl ''color'' ''red'']])"
    by (simp add: contentHook_def Let_def)
  from a b c d u g show ?thesis
    by blast
qed

text \<open>
  The selector \<open>.a:is(.b,.c)\<close> has no comma outside its parentheses, yet it is cut at the
  comma inside them and each half is transformed: the rule does not receive the transform of
  the selector as one piece.
\<close>

theorem transformAllSelectors_rules_counterexample:
  "\<not> sampleIsKeyframeRule [] ''.a:is(.b,.c)'' [] \<and>
   splitByNotEscapedCommas ''.a:is(.b,.c)'' = [''.a:is(.b'', ''.c)''] \<and>
   transformRule sampleTransform None sampleIsKeyframeRule [] ''.a:is(.b,.c)'' []
     = ((''.a:is(.b:hover,.c):hover'', []), []) \<and>
   fst (fst (transformRule sampleTransform None sampleIsKeyframeRule [] ''.a:is(.b,.c)'' []))
     \<noteq> js_str (sampleTransform ''.a:is(.b,.c)'')"
  by code_simp

end
